theory Spec2Isabelle
  imports Main "HOL-Library.Multiset"
begin

section \<open>Data model (src/shared/schema.ts)\<close>

text \<open>
  The tables of \<^verbatim>\<open>schema.ts\<close> as lists of rows, in insertion order. A \<^verbatim>\<open>timestamp\<close>
  column is a number of milliseconds, a \<^verbatim>\<open>decimal(10,2)\<close> column a number of hundredths,
  a \<^verbatim>\<open>jsonb\<close> or \<^verbatim>\<open>text\<close> column a string. A nullable column is an \<open>option\<close>. Field
  names carry the table's prefix, since the tables share column names. Values are taken to
  fit their columns (\<^verbatim>\<open>varchar\<close> lengths, decimal precision). The tables \<^verbatim>\<open>minted_nfts\<close> and
  \<^verbatim>\<open>activities\<close> are left out: no operation below reads or writes them.
\<close>

type_synonym timestamp = int
type_synonym decimal = int

record User =
  u_id :: int
  u_walletAddress :: string
  u_chain :: string
  u_publicKey :: "string option"
  u_pseudonymousId :: "string option"
  u_createdAt :: timestamp
  u_updatedAt :: timestamp

record ReputationScore =
  rs_id :: int
  rs_userId :: int
  rs_overallScore :: decimal
  rs_reputationLevel :: string
  rs_daoScore :: "decimal option"
  rs_defiScore :: "decimal option"
  rs_nftScore :: "decimal option"
  rs_bridgeScore :: "decimal option"
  rs_votingScore :: "decimal option"
  rs_scamAvoidanceScore :: "decimal option"
  rs_zkProofHash :: "string option"
  rs_lastCalculated :: timestamp
  rs_createdAt :: timestamp
  rs_updatedAt :: timestamp

record LeaderboardEntry =
  lb_id :: int
  lb_pseudonymousId :: string
  lb_reputationLevel :: string
  lb_overallScore :: decimal
  lb_chain :: string
  lb_rank :: int
  lb_createdAt :: timestamp
  lb_updatedAt :: timestamp

record ZkProof =
  zk_id :: int
  zk_userId :: int
  zk_proofHash :: string
  zk_proofData :: "string option"
  zk_verificationKey :: "string option"
  zk_publicInputs :: "string option"
  zk_isValid :: "bool option"
  zk_expiresAt :: "timestamp option"
  zk_createdAt :: timestamp

text \<open>
  A property of an insert or update object is either missing (\<^verbatim>\<open>undefined\<close>: the store
  applies the column's default on insert and keeps the column on update) or given; for a
  nullable column the given value may be \<^verbatim>\<open>null\<close>.
\<close>

datatype 'a field = Absent | Given 'a

text \<open>
  The insert types: the zod insert schema of each table without the omitted columns. A
  nullable column with no default inserts \<^verbatim>\<open>NULL\<close> whether its property is missing or
  \<^verbatim>\<open>null\<close>, so it is an \<open>option\<close>; a column with a default distinguishes the two. The
  \<^verbatim>\<open>Partial\<close> types of the update methods make every property optional.
\<close>

record InsertUser =
  iu_walletAddress :: string
  iu_chain :: string
  iu_publicKey :: "string option"
  iu_pseudonymousId :: "string option"

record PartialInsertUser =
  pu_walletAddress :: "string field"
  pu_chain :: "string field"
  pu_publicKey :: "string option field"
  pu_pseudonymousId :: "string option field"

record InsertReputationScore =
  irs_userId :: int
  irs_overallScore :: decimal
  irs_reputationLevel :: string
  irs_daoScore :: "decimal option field"
  irs_defiScore :: "decimal option field"
  irs_nftScore :: "decimal option field"
  irs_bridgeScore :: "decimal option field"
  irs_votingScore :: "decimal option field"
  irs_scamAvoidanceScore :: "decimal option field"
  irs_zkProofHash :: "string option"

record PartialInsertReputationScore =
  prs_userId :: "int field"
  prs_overallScore :: "decimal field"
  prs_reputationLevel :: "string field"
  prs_daoScore :: "decimal option field"
  prs_defiScore :: "decimal option field"
  prs_nftScore :: "decimal option field"
  prs_bridgeScore :: "decimal option field"
  prs_votingScore :: "decimal option field"
  prs_scamAvoidanceScore :: "decimal option field"
  prs_zkProofHash :: "string option field"

text \<open>The row of the select in \<^verbatim>\<open>updateLeaderboard\<close>, and the object it inserts.\<close>

record ScoreRow =
  sr_pseudonymousId :: string
  sr_reputationLevel :: string
  sr_overallScore :: decimal
  sr_chain :: string

record InsertLeaderboardEntry =
  ile_pseudonymousId :: string
  ile_reputationLevel :: string
  ile_overallScore :: decimal
  ile_chain :: string
  ile_rank :: int

record InsertZkProof =
  izk_userId :: int
  izk_proofHash :: string
  izk_proofData :: "string option"
  izk_verificationKey :: "string option"
  izk_publicInputs :: "string option"
  izk_isValid :: "bool option field"
  izk_expiresAt :: "timestamp option"

text \<open>
  The store: the four tables the operations below touch, and the sequence behind each
  \<^verbatim>\<open>serial\<close> id (the last value handed out; a sequence is never reset, and a rejected
  insert has consumed its value).
\<close>

record db =
  users :: "User list"
  reputationScores :: "ReputationScore list"
  leaderboard :: "LeaderboardEntry list"
  zkProofs :: "ZkProof list"
  users_seq :: int
  reputationScores_seq :: int
  leaderboard_seq :: int
  zkProofs_seq :: int

text \<open>What the store answers when a constraint of the schema rejects a statement.\<close>

datatype error = UniqueViolation | ForeignKeyViolation

definition emptyDb :: db where
  "emptyDb = \<lparr>users = [], reputationScores = [], leaderboard = [], zkProofs = [],
     users_seq = 0, reputationScores_seq = 0, leaderboard_seq = 0, zkProofs_seq = 0\<rparr>"

text \<open>
  A missing property of an insert object takes the column's default; a missing property of
  a \<^verbatim>\<open>set\<close> object keeps the column.
\<close>

definition dflt :: "'a \<Rightarrow> 'a field \<Rightarrow> 'a" where
  "dflt v f = (case f of Absent \<Rightarrow> v | Given x \<Rightarrow> x)"

definition patch :: "'a field \<Rightarrow> 'a \<Rightarrow> 'a" where
  "patch f old = (case f of Absent \<Rightarrow> old | Given x \<Rightarrow> x)"

section \<open>User operations (src/server/storage.ts)\<close>

text \<open>
  Each method takes the time \<open>now\<close> of its call: the \<^verbatim>\<open>new Date()\<close> it writes and the
  store's \<^verbatim>\<open>defaultNow()\<close>. It returns what the promise resolves to (\<open>Inr\<close>) or is
  rejected with (\<open>Inl\<close>), and the store after the call.
\<close>

definition getUser :: "db \<Rightarrow> int \<Rightarrow> User option" where
  "getUser d id' = find (\<lambda>u. u_id u = id') (users d)"

text \<open>
  \<^verbatim>\<open>createUser\<close>: one insert. \<^verbatim>\<open>wallet_address\<close> is unique, and so is \<^verbatim>\<open>pseudonymous_id\<close>
  among the values that are not null.
\<close>

definition createUser :: "timestamp \<Rightarrow> InsertUser \<Rightarrow> db \<Rightarrow> (error + User) \<times> db" where
  "createUser now insertUser d =
     (let d1 = d\<lparr>users_seq := users_seq d + 1\<rparr>;
          user = \<lparr>u_id = users_seq d1,
                  u_walletAddress = iu_walletAddress insertUser,
                  u_chain = iu_chain insertUser,
                  u_publicKey = iu_publicKey insertUser,
                  u_pseudonymousId = iu_pseudonymousId insertUser,
                  u_createdAt = now,
                  u_updatedAt = now\<rparr>
      in if \<exists>u \<in> set (users d). u_walletAddress u = u_walletAddress user \<or>
              (u_pseudonymousId user \<noteq> None \<and> u_pseudonymousId u = u_pseudonymousId user)
         then (Inl UniqueViolation, d1)
         else (Inr user, d1\<lparr>users := users d1 @ [user]\<rparr>))"

text \<open>
  \<^verbatim>\<open>updateUser\<close>: one update of the row with the id, setting the supplied columns and
  \<^verbatim>\<open>updatedAt\<close>. The unique constraints are checked against the other rows. The updated row
  is returned, \<^verbatim>\<open>undefined\<close> when there is none.
\<close>

definition set_user :: "timestamp \<Rightarrow> PartialInsertUser \<Rightarrow> User \<Rightarrow> User" where
  "set_user now updates u =
     u\<lparr>u_walletAddress := patch (pu_walletAddress updates) (u_walletAddress u),
       u_chain := patch (pu_chain updates) (u_chain u),
       u_publicKey := patch (pu_publicKey updates) (u_publicKey u),
       u_pseudonymousId := patch (pu_pseudonymousId updates) (u_pseudonymousId u),
       u_updatedAt := now\<rparr>"

definition updateUser :: "timestamp \<Rightarrow> int \<Rightarrow> PartialInsertUser \<Rightarrow> db \<Rightarrow> (error + User option) \<times> db" where
  "updateUser now id' updates d =
     (if \<exists>u \<in> set (users d). u_id u = id' \<and>
           (\<exists>v \<in> set (users d). u_id v \<noteq> id' \<and>
              (u_walletAddress v = u_walletAddress (set_user now updates u) \<or>
               (u_pseudonymousId (set_user now updates u) \<noteq> None \<and>
                u_pseudonymousId v = u_pseudonymousId (set_user now updates u))))
      then (Inl UniqueViolation, d)
      else (Inr (map_option (set_user now updates) (find (\<lambda>u. u_id u = id') (users d))),
            d\<lparr>users := map (\<lambda>u. if u_id u = id' then set_user now updates u else u) (users d)\<rparr>))"

section \<open>Reputation score operations (src/server/storage.ts)\<close>

definition getReputationScore :: "db \<Rightarrow> int \<Rightarrow> ReputationScore option" where
  "getReputationScore d userId = find (\<lambda>r. rs_userId r = userId) (reputationScores d)"

text \<open>
  \<^verbatim>\<open>createReputationScore\<close>: one insert. \<^verbatim>\<open>user_id\<close> references \<^verbatim>\<open>users.id\<close> and is
  not declared unique; the category scores default to 0.
\<close>

definition createReputationScore ::
  "timestamp \<Rightarrow> InsertReputationScore \<Rightarrow> db \<Rightarrow> (error + ReputationScore) \<times> db" where
  "createReputationScore now insertScore d =
     (let d1 = d\<lparr>reputationScores_seq := reputationScores_seq d + 1\<rparr>;
          score = \<lparr>rs_id = reputationScores_seq d1,
                   rs_userId = irs_userId insertScore,
                   rs_overallScore = irs_overallScore insertScore,
                   rs_reputationLevel = irs_reputationLevel insertScore,
                   rs_daoScore = dflt (Some 0) (irs_daoScore insertScore),
                   rs_defiScore = dflt (Some 0) (irs_defiScore insertScore),
                   rs_nftScore = dflt (Some 0) (irs_nftScore insertScore),
                   rs_bridgeScore = dflt (Some 0) (irs_bridgeScore insertScore),
                   rs_votingScore = dflt (Some 0) (irs_votingScore insertScore),
                   rs_scamAvoidanceScore = dflt (Some 0) (irs_scamAvoidanceScore insertScore),
                   rs_zkProofHash = irs_zkProofHash insertScore,
                   rs_lastCalculated = now,
                   rs_createdAt = now,
                   rs_updatedAt = now\<rparr>
      in if \<not> (\<exists>u \<in> set (users d). u_id u = irs_userId insertScore)
         then (Inl ForeignKeyViolation, d1)
         else (Inr score, d1\<lparr>reputationScores := reputationScores d1 @ [score]\<rparr>))"

text \<open>
  \<^verbatim>\<open>updateReputationScore\<close>: one update of every row of the user, setting the supplied
  columns, \<^verbatim>\<open>lastCalculated\<close> and \<^verbatim>\<open>updatedAt\<close>. A supplied \<^verbatim>\<open>userId\<close> must reference a
  user. The first updated row is returned, \<^verbatim>\<open>undefined\<close> when there is none.
\<close>

definition set_score :: "timestamp \<Rightarrow> PartialInsertReputationScore \<Rightarrow> ReputationScore \<Rightarrow> ReputationScore" where
  "set_score now updates r =
     r\<lparr>rs_userId := patch (prs_userId updates) (rs_userId r),
       rs_overallScore := patch (prs_overallScore updates) (rs_overallScore r),
       rs_reputationLevel := patch (prs_reputationLevel updates) (rs_reputationLevel r),
       rs_daoScore := patch (prs_daoScore updates) (rs_daoScore r),
       rs_defiScore := patch (prs_defiScore updates) (rs_defiScore r),
       rs_nftScore := patch (prs_nftScore updates) (rs_nftScore r),
       rs_bridgeScore := patch (prs_bridgeScore updates) (rs_bridgeScore r),
       rs_votingScore := patch (prs_votingScore updates) (rs_votingScore r),
       rs_scamAvoidanceScore := patch (prs_scamAvoidanceScore updates) (rs_scamAvoidanceScore r),
       rs_zkProofHash := patch (prs_zkProofHash updates) (rs_zkProofHash r),
       rs_lastCalculated := now,
       rs_updatedAt := now\<rparr>"

definition updateReputationScore ::
  "timestamp \<Rightarrow> int \<Rightarrow> PartialInsertReputationScore \<Rightarrow> db \<Rightarrow> (error + ReputationScore option) \<times> db" where
  "updateReputationScore now userId updates d =
     (if \<exists>r \<in> set (reputationScores d). rs_userId r = userId \<and>
           \<not> (\<exists>u \<in> set (users d). u_id u = rs_userId (set_score now updates r))
      then (Inl ForeignKeyViolation, d)
      else (Inr (map_option (set_score now updates) (find (\<lambda>r. rs_userId r = userId) (reputationScores d))),
            d\<lparr>reputationScores :=
                map (\<lambda>r. if rs_userId r = userId then set_score now updates r else r) (reputationScores d)\<rparr>))"

section \<open>Leaderboard operations (src/server/storage.ts)\<close>

text \<open>
  The select of \<^verbatim>\<open>updateLeaderboard\<close> before its \<^verbatim>\<open>ORDER BY\<close>: the inner join of
  \<^verbatim>\<open>reputation_scores\<close> with \<^verbatim>\<open>users\<close> on \<^verbatim>\<open>user_id = users.id\<close>, restricted to users
  whose pseudonymous id is not null (so the \<^verbatim>\<open>!\<close> of the insert never meets a null), and
  projected to four columns.
\<close>

definition select_scores :: "db \<Rightarrow> ScoreRow list" where
  "select_scores d =
     concat (map (\<lambda>r. concat (map (\<lambda>u.
        if rs_userId r = u_id u
        then (case u_pseudonymousId u of
                None \<Rightarrow> []
              | Some p \<Rightarrow> [\<lparr>sr_pseudonymousId = p,
                            sr_reputationLevel = rs_reputationLevel r,
                            sr_overallScore = rs_overallScore r,
                            sr_chain = u_chain u\<rparr>])
        else []) (users d))) (reputationScores d))"

text \<open>
  \<^verbatim>\<open>ORDER BY overall_score DESC\<close> has one key. The store may answer with any arrangement
  of the rows in which the key never increases; the order among rows of equal score is the
  store's choice and may differ from one execution to the next.
\<close>

definition order_by_desc :: "ScoreRow list \<Rightarrow> ScoreRow list \<Rightarrow> bool" where
  "order_by_desc rows scores \<longleftrightarrow>
     mset scores = mset rows \<and>
     sorted_wrt (\<lambda>a b. sr_overallScore a \<ge> sr_overallScore b) scores"

text \<open>One insert into \<^verbatim>\<open>leaderboard\<close>: id from the sequence, both timestamps defaulted.\<close>

definition insertLeaderboard :: "timestamp \<Rightarrow> InsertLeaderboardEntry \<Rightarrow> db \<Rightarrow> db" where
  "insertLeaderboard now v d =
     (let d1 = d\<lparr>leaderboard_seq := leaderboard_seq d + 1\<rparr>
      in d1\<lparr>leaderboard := leaderboard d1 @
           [\<lparr>lb_id = leaderboard_seq d1,
             lb_pseudonymousId = ile_pseudonymousId v,
             lb_reputationLevel = ile_reputationLevel v,
             lb_overallScore = ile_overallScore v,
             lb_chain = ile_chain v,
             lb_rank = ile_rank v,
             lb_createdAt = now,
             lb_updatedAt = now\<rparr>]\<rparr>)"

text \<open>
  The \<^verbatim>\<open>for\<close> loop of \<^verbatim>\<open>updateLeaderboard\<close> from index \<open>i\<close>. Every insert is awaited and
  committed on its own, at time \<open>clock i\<close>; the result lists the store after each insert.
\<close>

function insert_loop :: "(nat \<Rightarrow> timestamp) \<Rightarrow> ScoreRow list \<Rightarrow> nat \<Rightarrow> db \<Rightarrow> db list" where
  "insert_loop clock scores i d =
     (if i < length scores
      then (let score = scores ! i;
                d' = insertLeaderboard (clock i)
                       \<lparr>ile_pseudonymousId = sr_pseudonymousId score,
                        ile_reputationLevel = sr_reputationLevel score,
                        ile_overallScore = sr_overallScore score,
                        ile_chain = sr_chain score,
                        ile_rank = int i + 1\<rparr> d
            in d' # insert_loop clock scores (i + 1) d')
      else [])"
  by pat_completeness auto
termination
  by (relation "measure (\<lambda>(clock, scores, i, d). length scores - i)") auto

declare insert_loop.simps [simp del]

text \<open>
  A run of \<^verbatim>\<open>updateLeaderboard\<close> in which the select returned \<open>scores\<close>: the delete, then
  the loop. The result lists the store after each statement that writes.
\<close>

definition updateLeaderboard_run :: "(nat \<Rightarrow> timestamp) \<Rightarrow> ScoreRow list \<Rightarrow> db \<Rightarrow> db list" where
  "updateLeaderboard_run clock scores d =
     (let d0 = d\<lparr>leaderboard := []\<rparr> in d0 # insert_loop clock scores 0 d0)"

text \<open>
  \<^verbatim>\<open>updateLeaderboard\<close>: from the store \<open>d\<close>, the stores \<open>states\<close> that the run commits one
  after the other, and the store \<open>d'\<close> it leaves. The source opens no transaction: each
  awaited statement is committed when it returns, and a reader between two statements sees
  the store as the earlier one left it.
\<close>

inductive updateLeaderboard :: "(nat \<Rightarrow> timestamp) \<Rightarrow> db \<Rightarrow> db list \<Rightarrow> db \<Rightarrow> bool" where
  run: "order_by_desc (select_scores (d\<lparr>leaderboard := []\<rparr>)) scores \<Longrightarrow>
        updateLeaderboard clock d (updateLeaderboard_run clock scores d)
          (last (updateLeaderboard_run clock scores d))"

text \<open>\<^verbatim>\<open>getLeaderboardPosition\<close>: the rank of the first row with the pseudonymous id.\<close>

definition getLeaderboardPosition :: "db \<Rightarrow> string \<Rightarrow> int option" where
  "getLeaderboardPosition d pseudonymousId =
     map_option lb_rank (find (\<lambda>e. lb_pseudonymousId e = pseudonymousId) (leaderboard d))"

text \<open>
  The row that the loop of \<^verbatim>\<open>updateLeaderboard\<close> writes for index \<open>j\<close>, when the sequence
  stood at \<open>seq0\<close> before the loop.
\<close>

definition written_row :: "(nat \<Rightarrow> timestamp) \<Rightarrow> int \<Rightarrow> ScoreRow list \<Rightarrow> nat \<Rightarrow> LeaderboardEntry" where
  "written_row clock seq0 scores j =
     \<lparr>lb_id = seq0 + int j + 1,
      lb_pseudonymousId = sr_pseudonymousId (scores ! j),
      lb_reputationLevel = sr_reputationLevel (scores ! j),
      lb_overallScore = sr_overallScore (scores ! j),
      lb_chain = sr_chain (scores ! j),
      lb_rank = int j + 1,
      lb_createdAt = clock j,
      lb_updatedAt = clock j\<rparr>"

section \<open>ZK proof operations (src/server/storage.ts)\<close>

definition getZkProofByHash :: "db \<Rightarrow> string \<Rightarrow> ZkProof option" where
  "getZkProofByHash d proofHash = find (\<lambda>p. zk_proofHash p = proofHash) (zkProofs d)"

text \<open>
  \<^verbatim>\<open>createZkProof\<close>: one insert. \<^verbatim>\<open>proof_hash\<close> is unique and \<^verbatim>\<open>user_id\<close> references
  \<^verbatim>\<open>users.id\<close>; \<^verbatim>\<open>is_valid\<close> defaults to true and \<^verbatim>\<open>created_at\<close> to the store's clock.
\<close>

definition createZkProof :: "timestamp \<Rightarrow> InsertZkProof \<Rightarrow> db \<Rightarrow> (error + ZkProof) \<times> db" where
  "createZkProof now insertProof d =
     (let d1 = d\<lparr>zkProofs_seq := zkProofs_seq d + 1\<rparr>;
          proof = \<lparr>zk_id = zkProofs_seq d1,
                   zk_userId = izk_userId insertProof,
                   zk_proofHash = izk_proofHash insertProof,
                   zk_proofData = izk_proofData insertProof,
                   zk_verificationKey = izk_verificationKey insertProof,
                   zk_publicInputs = izk_publicInputs insertProof,
                   zk_isValid = dflt (Some True) (izk_isValid insertProof),
                   zk_expiresAt = izk_expiresAt insertProof,
                   zk_createdAt = now\<rparr>
      in if \<exists>p \<in> set (zkProofs d). zk_proofHash p = izk_proofHash insertProof
         then (Inl UniqueViolation, d1)
         else if \<not> (\<exists>u \<in> set (users d). u_id u = izk_userId insertProof)
         then (Inl ForeignKeyViolation, d1)
         else (Inr proof, d1\<lparr>zkProofs := zkProofs d1 @ [proof]\<rparr>))"

text \<open>
  \<^verbatim>\<open>validateZkProof\<close>: the first row with the hash, then the three early returns of the
  source. \<open>now\<close> is the \<^verbatim>\<open>new Date()\<close> of the comparison; a \<^verbatim>\<open>null\<close> flag is falsy.
\<close>

definition validateZkProof :: "timestamp \<Rightarrow> db \<Rightarrow> string \<Rightarrow> bool" where
  "validateZkProof now d proofHash =
     (case find (\<lambda>p. zk_proofHash p = proofHash) (zkProofs d) of
        None \<Rightarrow> False
      | Some proof \<Rightarrow>
          if zk_isValid proof \<noteq> Some True then False
          else if (case zk_expiresAt proof of None \<Rightarrow> False | Some e \<Rightarrow> e < now) then False
          else True)"

section \<open>Properties the claims speak of\<close>

text \<open>At most one ReputationRecord per identity: no two rows of one \<^verbatim>\<open>user_id\<close>.\<close>

definition atMostOneRecordPerIdentity :: "db \<Rightarrow> bool" where
  "atMostOneRecordPerIdentity d \<longleftrightarrow> distinct (map rs_userId (reputationScores d))"

text \<open>
  An eligible identity: a user with a pseudonymous id that owns at least one reputation
  record.
\<close>

definition eligible :: "db \<Rightarrow> User \<Rightarrow> bool" where
  "eligible d u \<longleftrightarrow>
     u_pseudonymousId u \<noteq> None \<and> (\<exists>r \<in> set (reputationScores d). rs_userId r = u_id u)"

text \<open>
  The constraints that \<^verbatim>\<open>schema.ts\<close> declares on \<^verbatim>\<open>users\<close> and \<^verbatim>\<open>reputation_scores\<close>:
  \<^verbatim>\<open>users.id\<close> is a key, \<^verbatim>\<open>wallet_address\<close> is unique, \<^verbatim>\<open>pseudonymous_id\<close> is unique
  among the non-null values, and every \<^verbatim>\<open>reputation_scores.user_id\<close> references a user.
\<close>

definition constraints_hold :: "db \<Rightarrow> bool" where
  "constraints_hold d \<longleftrightarrow>
     distinct (map u_id (users d)) \<and>
     distinct (map u_walletAddress (users d)) \<and>
     distinct (List.map_filter u_pseudonymousId (users d)) \<and>
     (\<forall>r \<in> set (reputationScores d). \<exists>u \<in> set (users d). u_id u = rs_userId r)"

text \<open>Every serial id handed out so far lies at or below its sequence.\<close>

definition sequences_ahead :: "db \<Rightarrow> bool" where
  "sequences_ahead d \<longleftrightarrow>
     (\<forall>u \<in> set (users d). u_id u \<le> users_seq d) \<and>
     (\<forall>e \<in> set (leaderboard d). lb_id e \<le> leaderboard_seq d)"

text \<open>
  A leaderboard row without the columns the store fills in: the four selected columns, and
  the five values of the insert.
\<close>

definition entry_row :: "LeaderboardEntry \<Rightarrow> ScoreRow" where
  "entry_row e = \<lparr>sr_pseudonymousId = lb_pseudonymousId e, sr_reputationLevel = lb_reputationLevel e,
     sr_overallScore = lb_overallScore e, sr_chain = lb_chain e\<rparr>"

definition entry_values :: "LeaderboardEntry \<Rightarrow> InsertLeaderboardEntry" where
  "entry_values e = \<lparr>ile_pseudonymousId = lb_pseudonymousId e, ile_reputationLevel = lb_reputationLevel e,
     ile_overallScore = lb_overallScore e, ile_chain = lb_chain e, ile_rank = lb_rank e\<rparr>"

text \<open>
  The rows that the join of \<^verbatim>\<open>updateLeaderboard\<close> yields for one record when \<^verbatim>\<open>users.id\<close> is
  a key: the row of its owner if the owner has a pseudonymous id, none otherwise.
\<close>

definition joined :: "db \<Rightarrow> ReputationScore \<Rightarrow> ScoreRow list" where
  "joined d r =
     (case getUser d (rs_userId r) of
        None \<Rightarrow> []
      | Some u \<Rightarrow> (case u_pseudonymousId u of
                     None \<Rightarrow> []
                   | Some p \<Rightarrow> [\<lparr>sr_pseudonymousId = p,
                                 sr_reputationLevel = rs_reputationLevel r,
                                 sr_overallScore = rs_overallScore r,
                                 sr_chain = u_chain u\<rparr>]))"

text \<open>
  The same store under other internal identities: user ids renamed by \<open>g\<close> (in \<^verbatim>\<open>users\<close>
  and in the records that reference them), wallet addresses and public keys replaced.
\<close>

definition relabel :: "(int \<Rightarrow> int) \<Rightarrow> (User \<Rightarrow> string) \<Rightarrow> (User \<Rightarrow> string option) \<Rightarrow> db \<Rightarrow> db" where
  "relabel g w k d =
     d\<lparr>users := map (\<lambda>u. u\<lparr>u_id := g (u_id u), u_walletAddress := w u, u_publicKey := k u\<rparr>) (users d),
       reputationScores := map (\<lambda>r. r\<lparr>rs_userId := g (rs_userId r)\<rparr>) (reputationScores d)\<rparr>"

section \<open>Scenarios\<close>

text \<open>Concrete stores, built by running the operations from the empty store.\<close>

definition userA :: InsertUser where
  "userA = \<lparr>iu_walletAddress = ''0xAA'', iu_chain = ''ethereum'', iu_publicKey = None,
     iu_pseudonymousId = Some ''anon_A''\<rparr>"

definition proofHash1 :: "bool option field \<Rightarrow> timestamp option \<Rightarrow> InsertZkProof" where
  "proofHash1 v e = \<lparr>izk_userId = 1, izk_proofHash = ''0xHASH1'', izk_proofData = None,
     izk_verificationKey = None, izk_publicInputs = None, izk_isValid = v, izk_expiresAt = e\<rparr>"

definition dbHash1 :: "bool option field \<Rightarrow> timestamp option \<Rightarrow> db" where
  "dbHash1 v e = snd (createZkProof 0 (proofHash1 v e) (snd (createUser 0 userA emptyDb)))"

definition userB :: InsertUser where
  "userB = \<lparr>iu_walletAddress = ''0xBB'', iu_chain = ''solana'', iu_publicKey = None,
     iu_pseudonymousId = Some ''anon_B''\<rparr>"

definition scoreFor :: "int \<Rightarrow> decimal \<Rightarrow> string \<Rightarrow> InsertReputationScore" where
  "scoreFor userId overall level =
     \<lparr>irs_userId = userId, irs_overallScore = overall, irs_reputationLevel = level,
      irs_daoScore = Given (Some 18050), irs_defiScore = Given (Some 25025), irs_nftScore = Absent,
      irs_bridgeScore = Absent, irs_votingScore = Absent, irs_scamAvoidanceScore = Absent,
      irs_zkProofHash = None\<rparr>"

definition noUpdates :: PartialInsertReputationScore where
  "noUpdates = \<lparr>prs_userId = Absent, prs_overallScore = Absent, prs_reputationLevel = Absent,
     prs_daoScore = Absent, prs_defiScore = Absent, prs_nftScore = Absent, prs_bridgeScore = Absent,
     prs_votingScore = Absent, prs_scamAvoidanceScore = Absent, prs_zkProofHash = Absent\<rparr>"

definition defiOnly :: PartialInsertReputationScore where
  "defiOnly = noUpdates\<lparr>prs_defiScore := Given (Some 30000)\<rparr>"

definition reownUnknown :: PartialInsertReputationScore where
  "reownUnknown = noUpdates\<lparr>prs_userId := Given 99\<rparr>"

definition dbScoredA :: db where
  "dbScoredA = snd (createReputationScore 10 (scoreFor 1 89275 ''gold'') (snd (createUser 0 userA emptyDb)))"

definition dbTwoUsers :: db where
  "dbTwoUsers = snd (createUser 5 userB (snd (createUser 0 userA emptyDb)))"

definition rebindWallet :: PartialInsertUser where
  "rebindWallet = \<lparr>pu_walletAddress = Given ''0xBB'', pu_chain = Absent, pu_publicKey = Absent,
     pu_pseudonymousId = Given (Some ''anon_X'')\<rparr>"

definition takeWalletB :: PartialInsertUser where
  "takeWalletB = \<lparr>pu_walletAddress = Given ''0xBB'', pu_chain = Absent, pu_publicKey = Absent,
     pu_pseudonymousId = Absent\<rparr>"

definition keyOnly :: PartialInsertUser where
  "keyOnly = \<lparr>pu_walletAddress = Absent, pu_chain = Absent, pu_publicKey = Given (Some ''0x04c9''),
     pu_pseudonymousId = Absent\<rparr>"

text \<open>
  Leaderboard scenarios. Identities A, B, C register in this order; the records of B (score
  900.00), A (900.00) and C (850.00) are created in this order. \<open>tick t0\<close> is a clock that
  starts at \<open>t0\<close>.
\<close>

definition userC :: InsertUser where
  "userC = \<lparr>iu_walletAddress = ''0xCC'', iu_chain = ''ethereum'', iu_publicKey = None,
     iu_pseudonymousId = Some ''anon_C''\<rparr>"

definition dbABC :: db where
  "dbABC =
     snd (createReputationScore 30 (scoreFor 3 85000 ''silver'')
       (snd (createReputationScore 20 (scoreFor 1 90000 ''gold'')
         (snd (createReputationScore 10 (scoreFor 2 90000 ''gold'')
           (snd (createUser 7 userC dbTwoUsers)))))))"

definition rowA :: ScoreRow where
  "rowA = \<lparr>sr_pseudonymousId = ''anon_A'', sr_reputationLevel = ''gold'', sr_overallScore = 90000,
     sr_chain = ''ethereum''\<rparr>"

definition rowB :: ScoreRow where
  "rowB = \<lparr>sr_pseudonymousId = ''anon_B'', sr_reputationLevel = ''gold'', sr_overallScore = 90000,
     sr_chain = ''solana''\<rparr>"

definition rowC :: ScoreRow where
  "rowC = \<lparr>sr_pseudonymousId = ''anon_C'', sr_reputationLevel = ''silver'', sr_overallScore = 85000,
     sr_chain = ''ethereum''\<rparr>"

definition tick :: "timestamp \<Rightarrow> nat \<Rightarrow> timestamp" where
  "tick t0 i = t0 + int i"

definition dbRankedBAC :: db where
  "dbRankedBAC = last (updateLeaderboard_run (tick 100) [rowB, rowA, rowC] dbABC)"

definition dbRankedABC :: db where
  "dbRankedABC = last (updateLeaderboard_run (tick 200) [rowA, rowB, rowC] dbRankedBAC)"

definition statesSecond :: "db list" where
  "statesSecond = updateLeaderboard_run (tick 200) [rowA, rowB, rowC] dbRankedBAC"

text \<open>Identity A with two records, and two identities with different scores.\<close>

definition dbTwoRecords :: db where
  "dbTwoRecords = snd (createReputationScore 30 (scoreFor 1 50000 ''silver'') dbScoredA)"

definition rowA1 :: ScoreRow where
  "rowA1 = \<lparr>sr_pseudonymousId = ''anon_A'', sr_reputationLevel = ''gold'', sr_overallScore = 89275,
     sr_chain = ''ethereum''\<rparr>"

definition rowA2 :: ScoreRow where
  "rowA2 = \<lparr>sr_pseudonymousId = ''anon_A'', sr_reputationLevel = ''silver'', sr_overallScore = 50000,
     sr_chain = ''ethereum''\<rparr>"

definition dbRankedTwoRecords :: db where
  "dbRankedTwoRecords = last (updateLeaderboard_run (tick 100) [rowA1, rowA2] dbTwoRecords)"

definition rowB2 :: ScoreRow where
  "rowB2 = \<lparr>sr_pseudonymousId = ''anon_B'', sr_reputationLevel = ''silver'', sr_overallScore = 85000,
     sr_chain = ''solana''\<rparr>"

definition dbDistinct :: db where
  "dbDistinct =
     snd (createReputationScore 20 (scoreFor 2 85000 ''silver'')
       (snd (createReputationScore 10 (scoreFor 1 90000 ''gold'') dbTwoUsers)))"

definition dbDistinctRanked :: db where
  "dbDistinctRanked = last (updateLeaderboard_run (tick 100) [rowA, rowB2] dbDistinct)"

definition dbDistinctReranked :: db where
  "dbDistinctReranked = last (updateLeaderboard_run (tick 200) [rowA, rowB2] dbDistinctRanked)"

definition hideIdentity :: "db \<Rightarrow> db" where
  "hideIdentity = relabel (\<lambda>i. i + 10) (\<lambda>u. ''0x'' @ the (u_pseudonymousId u)) (\<lambda>u. None)"

section \<open>The proof gate\<close>

lemma find_append_new:
  "\<not> (\<exists>x \<in> set xs. P x) \<Longrightarrow> P y \<Longrightarrow> find P (xs @ [y]) = Some y"
  by (induction xs) auto

text \<open>
  C3 (as amended). \<^verbatim>\<open>validateZkProof\<close> always returns: false for an unknown hash, false when
  the validity flag is not true, false when an expiry is set and lies strictly before the
  current time, and true otherwise. An expiry exactly equal to the current time is not yet
  expired: the source compares with \<^verbatim>\<open><\<close>.
\<close>

theorem validateZkProof_cases:
  "validateZkProof now d proofHash =
     (case getZkProofByHash d proofHash of
        None \<Rightarrow> False
      | Some p \<Rightarrow> zk_isValid p = Some True \<and>
                 (case zk_expiresAt p of None \<Rightarrow> True | Some e \<Rightarrow> now \<le> e))"
  by (auto simp: validateZkProof_def getZkProofByHash_def split: option.splits)

text \<open>
  C3 as stated fails: a proof registered with validity true and expiry 1000 is still
  reported valid at time 1000.
\<close>

theorem validateZkProof_expiry_now_counterexample:
  "map_option zk_expiresAt (getZkProofByHash (dbHash1 (Given (Some True)) (Some 1000)) ''0xHASH1'')
     = Some (Some 1000)
   \<and> validateZkProof 1000 (dbHash1 (Given (Some True)) (Some 1000)) ''0xHASH1'' = True"
  by (simp add: dbHash1_def proofHash1_def userA_def emptyDb_def createUser_def createZkProof_def
      validateZkProof_def getZkProofByHash_def dflt_def Let_def)

text \<open>
  C10. A proof created without a validity flag is stored with the flag true, it is the row
  found under its hash, and with no expiry or an expiry strictly after the time of the check
  \<^verbatim>\<open>validateZkProof\<close> of its hash is true.
\<close>

theorem createZkProof_default_valid:
  assumes "createZkProof t insertProof d = (Inr p, d')"
    and "izk_isValid insertProof = Absent"
  shows "zk_isValid p = Some True \<and>
         getZkProofByHash d' (izk_proofHash insertProof) = Some p \<and>
         (izk_expiresAt insertProof = None \<or> (\<exists>e. izk_expiresAt insertProof = Some e \<and> now < e)
            \<longrightarrow> validateZkProof now d' (izk_proofHash insertProof))"
proof -
  let ?h = "izk_proofHash insertProof"
  from assms(1) have fresh: "\<not> (\<exists>q \<in> set (zkProofs d). zk_proofHash q = ?h)"
    by (auto simp: createZkProof_def Let_def split: if_splits)
  from assms(1) have rows: "zkProofs d' = zkProofs d @ [p]"
    by (auto simp: createZkProof_def Let_def split: if_splits)
  from assms have p: "zk_proofHash p = ?h" "zk_isValid p = Some True"
      "zk_expiresAt p = izk_expiresAt insertProof"
    by (auto simp: createZkProof_def Let_def dflt_def split: if_splits)
  have found: "find (\<lambda>q. zk_proofHash q = ?h) (zkProofs d') = Some p"
    unfolding rows using fresh p(1) by (rule find_append_new)
  show ?thesis
    using found p by (auto simp: getZkProofByHash_def validateZkProof_def)
qed

theorem createZkProof_default_valid_witness:
  "createZkProof 0 (proofHash1 Absent (Some 2000)) (snd (createUser 0 userA emptyDb))
     = (Inr \<lparr>zk_id = 1, zk_userId = 1, zk_proofHash = ''0xHASH1'', zk_proofData = None,
             zk_verificationKey = None, zk_publicInputs = None, zk_isValid = Some True,
             zk_expiresAt = Some 2000, zk_createdAt = 0\<rparr>, dbHash1 Absent (Some 2000))
   \<and> validateZkProof 1000 (dbHash1 Absent (Some 2000)) ''0xHASH1''"
proof -
  have c: "createZkProof 0 (proofHash1 Absent (Some 2000)) (snd (createUser 0 userA emptyDb))
     = (Inr \<lparr>zk_id = 1, zk_userId = 1, zk_proofHash = ''0xHASH1'', zk_proofData = None,
             zk_verificationKey = None, zk_publicInputs = None, zk_isValid = Some True,
             zk_expiresAt = Some 2000, zk_createdAt = 0\<rparr>, dbHash1 Absent (Some 2000))"
    by (simp add: dbHash1_def proofHash1_def userA_def emptyDb_def createUser_def createZkProof_def
      dflt_def Let_def)
  have a: "izk_isValid (proofHash1 Absent (Some 2000)) = Absent" by (simp add: proofHash1_def)
  from createZkProof_default_valid [OF c a, of 1000] c show ?thesis
    by (simp add: proofHash1_def)
qed

section \<open>The reputation store\<close>

lemma dbScoredA_eq:
  "dbScoredA =
    \<lparr>users = [\<lparr>u_id = 1, u_walletAddress = ''0xAA'', u_chain = ''ethereum'', u_publicKey = None,
        u_pseudonymousId = Some ''anon_A'', u_createdAt = 0, u_updatedAt = 0\<rparr>],
     reputationScores = [\<lparr>rs_id = 1, rs_userId = 1, rs_overallScore = 89275,
        rs_reputationLevel = ''gold'', rs_daoScore = Some 18050, rs_defiScore = Some 25025,
        rs_nftScore = Some 0, rs_bridgeScore = Some 0, rs_votingScore = Some 0,
        rs_scamAvoidanceScore = Some 0, rs_zkProofHash = None, rs_lastCalculated = 10,
        rs_createdAt = 10, rs_updatedAt = 10\<rparr>],
     leaderboard = [], zkProofs = [], users_seq = 1, reputationScores_seq = 1,
     leaderboard_seq = 0, zkProofs_seq = 0\<rparr>"
  by (simp add: dbScoredA_def scoreFor_def userA_def emptyDb_def createUser_def
      createReputationScore_def dflt_def Let_def)

text \<open>
  C5. \<^verbatim>\<open>updateReputationScore\<close> keeps the number of rows and leaves the rows of other users
  as they are. When it is rejected the store is unchanged. When it succeeds, every row of the
  user has exactly the supplied columns replaced: a category score (or overall score, level,
  owner, proof hash) that is not supplied keeps its prior value and is never reset to its
  default. \<^verbatim>\<open>last_calculated\<close> is refreshed, and with it \<^verbatim>\<open>updated_at\<close>, the row's
  bookkeeping column next to the untouched \<^verbatim>\<open>id\<close> and \<^verbatim>\<open>created_at\<close>.
\<close>

theorem updateReputationScore_frame:
  assumes "updateReputationScore now userId updates d = (result, d')"
    and "k < length (reputationScores d)"
    and "r = reputationScores d ! k" and "r' = reputationScores d' ! k"
  shows "length (reputationScores d') = length (reputationScores d) \<and>
         (isl result \<longrightarrow> d' = d) \<and>
         (rs_userId r \<noteq> userId \<longrightarrow> r' = r) \<and>
         (\<not> isl result \<and> rs_userId r = userId \<longrightarrow>
            rs_daoScore r' = (case prs_daoScore updates of Absent \<Rightarrow> rs_daoScore r | Given v \<Rightarrow> v) \<and>
            rs_defiScore r' = (case prs_defiScore updates of Absent \<Rightarrow> rs_defiScore r | Given v \<Rightarrow> v) \<and>
            rs_nftScore r' = (case prs_nftScore updates of Absent \<Rightarrow> rs_nftScore r | Given v \<Rightarrow> v) \<and>
            rs_bridgeScore r' = (case prs_bridgeScore updates of Absent \<Rightarrow> rs_bridgeScore r | Given v \<Rightarrow> v) \<and>
            rs_votingScore r' = (case prs_votingScore updates of Absent \<Rightarrow> rs_votingScore r | Given v \<Rightarrow> v) \<and>
            rs_scamAvoidanceScore r' =
              (case prs_scamAvoidanceScore updates of Absent \<Rightarrow> rs_scamAvoidanceScore r | Given v \<Rightarrow> v) \<and>
            rs_overallScore r' = (case prs_overallScore updates of Absent \<Rightarrow> rs_overallScore r | Given v \<Rightarrow> v) \<and>
            rs_reputationLevel r' =
              (case prs_reputationLevel updates of Absent \<Rightarrow> rs_reputationLevel r | Given v \<Rightarrow> v) \<and>
            rs_userId r' = (case prs_userId updates of Absent \<Rightarrow> rs_userId r | Given v \<Rightarrow> v) \<and>
            rs_zkProofHash r' = (case prs_zkProofHash updates of Absent \<Rightarrow> rs_zkProofHash r | Given v \<Rightarrow> v) \<and>
            rs_id r' = rs_id r \<and> rs_createdAt r' = rs_createdAt r \<and>
            rs_lastCalculated r' = now \<and> rs_updatedAt r' = now)"
proof (cases "isl result")
  case True
  with assms(1) have "d' = d"
    by (auto simp: updateReputationScore_def split: if_splits)
  with True assms(3,4) show ?thesis by simp
next
  case False
  with assms(1) have rows: "reputationScores d' =
      map (\<lambda>r. if rs_userId r = userId then set_score now updates r else r) (reputationScores d)"
    by (auto simp: updateReputationScore_def split: if_splits)
  have r': "r' = (if rs_userId r = userId then set_score now updates r else r)"
    using assms(2-4) by (simp add: rows)
  show ?thesis
    using r' False by (auto simp: rows set_score_def patch_def split: field.splits)
qed

text \<open>
  An update of \<^verbatim>\<open>defiScore\<close> alone on the scored store, and an update rejected because
  it gives the record to a user that does not exist.
\<close>

theorem updateReputationScore_frame_witness:
  "length (reputationScores (snd (updateReputationScore 20 1 defiOnly dbScoredA))) = 1 \<and>
   rs_defiScore (reputationScores (snd (updateReputationScore 20 1 defiOnly dbScoredA)) ! 0) = Some 30000 \<and>
   rs_daoScore (reputationScores (snd (updateReputationScore 20 1 defiOnly dbScoredA)) ! 0) = Some 18050 \<and>
   rs_nftScore (reputationScores (snd (updateReputationScore 20 1 defiOnly dbScoredA)) ! 0) = Some 0 \<and>
   rs_overallScore (reputationScores (snd (updateReputationScore 20 1 defiOnly dbScoredA)) ! 0) = 89275 \<and>
   rs_reputationLevel (reputationScores (snd (updateReputationScore 20 1 defiOnly dbScoredA)) ! 0) = ''gold'' \<and>
   rs_lastCalculated (reputationScores (snd (updateReputationScore 20 1 defiOnly dbScoredA)) ! 0) = 20 \<and>
   updateReputationScore 20 1 reownUnknown dbScoredA = (Inl ForeignKeyViolation, dbScoredA)"
proof -
  obtain res d' where u: "updateReputationScore 20 1 defiOnly dbScoredA = (Inr res, d')"
    by (simp add: updateReputationScore_def dbScoredA_eq set_score_def patch_def defiOnly_def
        noUpdates_def)
  obtain d'' where v: "updateReputationScore 20 1 reownUnknown dbScoredA = (Inl ForeignKeyViolation, d'')"
    by (simp add: updateReputationScore_def dbScoredA_eq set_score_def patch_def reownUnknown_def
        noUpdates_def)
  have k: "0 < length (reputationScores dbScoredA)"
    by (simp add: dbScoredA_eq)
  have d': "snd (updateReputationScore 20 1 defiOnly dbScoredA) = d'"
    by (simp add: u)
  from updateReputationScore_frame [OF v k refl refl] have "d'' = dbScoredA"
    by simp
  with v have w: "updateReputationScore 20 1 reownUnknown dbScoredA = (Inl ForeignKeyViolation, dbScoredA)"
    by simp
  show ?thesis
    unfolding d' w using updateReputationScore_frame [OF u k refl refl]
    by (simp add: dbScoredA_eq defiOnly_def noUpdates_def)
qed

lemma createReputationScore_rows:
  "reputationScores (snd (createReputationScore now ins d)) = reputationScores d \<or>
   (\<exists>r. rs_userId r = irs_userId ins \<and>
     reputationScores (snd (createReputationScore now ins d)) = reputationScores d @ [r])"
  by (simp add: createReputationScore_def Let_def)

text \<open>
  C6 (as amended). The store does not enforce one record per identity.
  \<^verbatim>\<open>createReputationScore\<close> inserts a new record for any identity that exists, and is rejected,
  the records unchanged, for one that does not. When every identity has at most one record, a
  \<^verbatim>\<open>createReputationScore\<close> for an identity that has none keeps it so; in a store that
  satisfies the schema's constraints, a \<^verbatim>\<open>createReputationScore\<close> for an identity that has a
  record breaks it. \<^verbatim>\<open>updateReputationScore\<close> with a patch that does not
  supply \<^verbatim>\<open>userId\<close> keeps at most one record per identity.
\<close>

theorem reputation_ops_preserve_one_record:
  "((\<exists>u \<in> set (users d). u_id u = irs_userId ins) \<longrightarrow>
      (\<exists>score. fst (createReputationScore now ins d) = Inr score \<and>
         rs_userId score = irs_userId ins \<and>
         reputationScores (snd (createReputationScore now ins d)) = reputationScores d @ [score])) \<and>
   (\<not> (\<exists>u \<in> set (users d). u_id u = irs_userId ins) \<longrightarrow>
      fst (createReputationScore now ins d) = Inl ForeignKeyViolation \<and>
      reputationScores (snd (createReputationScore now ins d)) = reputationScores d) \<and>
   (atMostOneRecordPerIdentity d \<and> getReputationScore d (irs_userId ins) = None \<longrightarrow>
      atMostOneRecordPerIdentity (snd (createReputationScore now ins d))) \<and>
   (constraints_hold d \<and> getReputationScore d (irs_userId ins) \<noteq> None \<longrightarrow>
      \<not> atMostOneRecordPerIdentity (snd (createReputationScore now ins d))) \<and>
   (atMostOneRecordPerIdentity d \<and> prs_userId updates = Absent \<longrightarrow>
      atMostOneRecordPerIdentity (snd (updateReputationScore now userId updates d)))"
proof (intro conjI impI)
  assume "\<exists>u \<in> set (users d). u_id u = irs_userId ins"
  then show "\<exists>score. fst (createReputationScore now ins d) = Inr score \<and>
         rs_userId score = irs_userId ins \<and>
         reputationScores (snd (createReputationScore now ins d)) = reputationScores d @ [score]"
    by (simp add: createReputationScore_def Let_def)
next
  assume "\<not> (\<exists>u \<in> set (users d). u_id u = irs_userId ins)"
  then show "fst (createReputationScore now ins d) = Inl ForeignKeyViolation"
    and "reputationScores (snd (createReputationScore now ins d)) = reputationScores d"
    by (simp_all add: createReputationScore_def Let_def)
next
  assume a: "atMostOneRecordPerIdentity d \<and> getReputationScore d (irs_userId ins) = None"
  then have "irs_userId ins \<notin> set (map rs_userId (reputationScores d))"
    by (auto simp: getReputationScore_def find_None_iff)
  with a createReputationScore_rows [of now ins d]
  show "atMostOneRecordPerIdentity (snd (createReputationScore now ins d))"
    by (auto simp: atMostOneRecordPerIdentity_def)
next
  assume a: "constraints_hold d \<and> getReputationScore d (irs_userId ins) \<noteq> None"
  then obtain r where r: "r \<in> set (reputationScores d)" "rs_userId r = irs_userId ins"
    by (auto simp: getReputationScore_def find_None_iff)
  from a have "\<forall>r \<in> set (reputationScores d). \<exists>u \<in> set (users d). u_id u = rs_userId r"
    by (simp add: constraints_hold_def)
  with r have ex: "\<exists>u \<in> set (users d). u_id u = irs_userId ins"
    by metis
  from r have "irs_userId ins \<in> set (map rs_userId (reputationScores d))"
    by force
  with ex show "\<not> atMostOneRecordPerIdentity (snd (createReputationScore now ins d))"
    by (simp add: createReputationScore_def Let_def atMostOneRecordPerIdentity_def)
next
  assume a: "atMostOneRecordPerIdentity d \<and> prs_userId updates = Absent"
  have "rs_userId \<circ> (\<lambda>r. if rs_userId r = userId then set_score now updates r else r) = rs_userId"
    using a by (auto simp: set_score_def patch_def)
  with a show "atMostOneRecordPerIdentity (snd (updateReputationScore now userId updates d))"
    by (simp add: atMostOneRecordPerIdentity_def updateReputationScore_def)
qed

text \<open>
  On the scored store: a second record for user 1, a record for the unknown user 99, a first
  record for the new user 2, and an update of \<^verbatim>\<open>defiScore\<close> alone.
\<close>

theorem reputation_ops_preserve_one_record_witness:
  "map rs_userId (reputationScores (snd (createReputationScore 30 (scoreFor 1 50000 ''silver'') dbScoredA)))
     = [1, 1] \<and>
   \<not> atMostOneRecordPerIdentity (snd (createReputationScore 30 (scoreFor 1 50000 ''silver'') dbScoredA)) \<and>
   fst (createReputationScore 30 (scoreFor 99 50000 ''silver'') dbScoredA) = Inl ForeignKeyViolation \<and>
   atMostOneRecordPerIdentity
     (snd (createReputationScore 30 (scoreFor 2 50000 ''silver'') (snd (createUser 25 userB dbScoredA)))) \<and>
   length (reputationScores
     (snd (createReputationScore 30 (scoreFor 2 50000 ''silver'') (snd (createUser 25 userB dbScoredA))))) = 2 \<and>
   atMostOneRecordPerIdentity (snd (updateReputationScore 20 1 defiOnly dbScoredA))"
proof -
  let ?again = "scoreFor 1 50000 ''silver''"
  let ?orphan = "scoreFor 99 50000 ''silver''"
  let ?forB = "scoreFor 2 50000 ''silver''"
  let ?dB = "snd (createUser 25 userB dbScoredA)"
  have a: "atMostOneRecordPerIdentity dbScoredA"
    by (simp add: atMostOneRecordPerIdentity_def dbScoredA_eq)
  have c: "constraints_hold dbScoredA"
    by (simp add: constraints_hold_def dbScoredA_eq map_filter_def)
  have ex: "\<exists>u \<in> set (users dbScoredA). u_id u = irs_userId ?again"
    by (simp add: dbScoredA_eq scoreFor_def)
  have some: "getReputationScore dbScoredA (irs_userId ?again) \<noteq> None"
    by (simp add: getReputationScore_def dbScoredA_eq scoreFor_def)
  have nex: "\<not> (\<exists>u \<in> set (users dbScoredA). u_id u = irs_userId ?orphan)"
    by (simp add: dbScoredA_eq scoreFor_def)
  have b: "atMostOneRecordPerIdentity ?dB"
    by (simp add: atMostOneRecordPerIdentity_def dbScoredA_eq createUser_def Let_def)
  have none: "getReputationScore ?dB (irs_userId ?forB) = None"
    by (simp add: getReputationScore_def dbScoredA_eq createUser_def Let_def scoreFor_def)
  have p: "prs_userId defiOnly = Absent"
    by (simp add: defiOnly_def noUpdates_def)
  note t1 = reputation_ops_preserve_one_record [where d = dbScoredA and ins = ?again and now = 30
      and updates = defiOnly and userId = 1]
  note t2 = reputation_ops_preserve_one_record [where d = dbScoredA and ins = ?orphan and now = 30
      and updates = defiOnly and userId = 1]
  note t3 = reputation_ops_preserve_one_record [where d = ?dB and ins = ?forB and now = 30
      and updates = defiOnly and userId = 1]
  note t4 = reputation_ops_preserve_one_record [where d = dbScoredA and ins = ?again and now = 20
      and updates = defiOnly and userId = 1]
  from t1 ex obtain score where
    s: "rs_userId score = irs_userId ?again"
      "reputationScores (snd (createReputationScore 30 ?again dbScoredA)) = reputationScores dbScoredA @ [score]"
    by blast
  have w1: "map rs_userId (reputationScores (snd (createReputationScore 30 ?again dbScoredA))) = [1, 1]"
    unfolding s(2) by (simp add: s(1) dbScoredA_eq scoreFor_def)
  from t1 c some have w2: "\<not> atMostOneRecordPerIdentity (snd (createReputationScore 30 ?again dbScoredA))"
    by blast
  from t2 nex have w3: "fst (createReputationScore 30 ?orphan dbScoredA) = Inl ForeignKeyViolation"
    by blast
  from t3 b none have w4: "atMostOneRecordPerIdentity (snd (createReputationScore 30 ?forB ?dB))"
    by blast
  have w5: "length (reputationScores (snd (createReputationScore 30 ?forB ?dB))) = 2"
    by (simp add: dbScoredA_eq createUser_def createReputationScore_def Let_def userB_def scoreFor_def)
  from t4 a p have w6: "atMostOneRecordPerIdentity (snd (updateReputationScore 20 1 defiOnly dbScoredA))"
    by blast
  from w1 w2 w3 w4 w5 w6 show ?thesis
    by blast
qed

text \<open>
  C6 as stated fails: a second \<^verbatim>\<open>createReputationScore\<close> for user 1 succeeds and leaves two
  records of that identity.
\<close>

theorem createReputationScore_twice_counterexample:
  "atMostOneRecordPerIdentity dbScoredA \<and>
   map rs_userId (reputationScores (snd (createReputationScore 30 (scoreFor 1 50000 ''silver'') dbScoredA)))
     = [1, 1] \<and>
   \<not> atMostOneRecordPerIdentity (snd (createReputationScore 30 (scoreFor 1 50000 ''silver'') dbScoredA))"
  by (simp add: atMostOneRecordPerIdentity_def dbScoredA_eq createReputationScore_def scoreFor_def
      Let_def)

section \<open>The identity registry\<close>

lemma find_id_map:
  assumes "\<And>x. u_id (f x) = u_id x"
  shows "find (\<lambda>x. u_id x = k) (map (\<lambda>x. if u_id x = k then f x else x) xs)
           = map_option f (find (\<lambda>x. u_id x = k) xs)"
  by (induction xs) (simp_all add: assms)

lemma find_other_id_map:
  assumes "\<And>x. u_id (f x) = u_id x" and "j \<noteq> k"
  shows "find (\<lambda>x. u_id x = j) (map (\<lambda>x. if u_id x = k then f x else x) xs)
           = find (\<lambda>x. u_id x = j) xs"
  by (induction xs) (simp_all add: assms)

lemma find_distinct_id:
  assumes "distinct (map u_id xs)" and "find (\<lambda>x. u_id x = k) xs = Some u"
    and "x \<in> set xs" and "u_id x = k"
  shows "x = u"
proof -
  from assms(2) have "u \<in> set xs" "u_id u = k"
    by (auto simp: find_Some_iff)
  moreover from assms(1) have "inj_on u_id (set xs)"
    by (simp add: distinct_map)
  ultimately show ?thesis
    using assms(3,4) by (auto dest: inj_onD)
qed


lemma set_user_id: "u_id (set_user now updates u) = u_id u"
  by (simp add: set_user_def)

lemma updateUser_target:
  assumes "distinct (map u_id (users d))" and "getUser d id' = Some u"
  shows "updateUser now id' updates d =
     (if \<exists>v \<in> set (users d). u_id v \<noteq> id' \<and>
              (u_walletAddress v = u_walletAddress (set_user now updates u) \<or>
               (u_pseudonymousId (set_user now updates u) \<noteq> None \<and>
                u_pseudonymousId v = u_pseudonymousId (set_user now updates u)))
      then (Inl UniqueViolation, d)
      else (Inr (Some (set_user now updates u)),
            d\<lparr>users := map (\<lambda>x. if u_id x = id' then set_user now updates x else x) (users d)\<rparr>))"
proof -
  from assms(2) have u: "u \<in> set (users d)" "u_id u = id'"
    by (auto simp: getUser_def find_Some_iff)
  have only: "x = u" if "x \<in> set (users d)" "u_id x = id'" for x
    using find_distinct_id [OF assms(1) _ that] assms(2) by (simp add: getUser_def)
  have cond: "(\<exists>x \<in> set (users d). u_id x = id' \<and>
           (\<exists>v \<in> set (users d). u_id v \<noteq> id' \<and>
              (u_walletAddress v = u_walletAddress (set_user now updates x) \<or>
               (u_pseudonymousId (set_user now updates x) \<noteq> None \<and>
                u_pseudonymousId v = u_pseudonymousId (set_user now updates x)))))
        \<longleftrightarrow> (\<exists>v \<in> set (users d). u_id v \<noteq> id' \<and>
              (u_walletAddress v = u_walletAddress (set_user now updates u) \<or>
               (u_pseudonymousId (set_user now updates u) \<noteq> None \<and>
                u_pseudonymousId v = u_pseudonymousId (set_user now updates u))))"
    (is "?L \<longleftrightarrow> ?R")
  proof
    assume ?L
    then obtain x where x: "x \<in> set (users d)" "u_id x = id'"
      and c: "\<exists>v \<in> set (users d). u_id v \<noteq> id' \<and>
              (u_walletAddress v = u_walletAddress (set_user now updates x) \<or>
               (u_pseudonymousId (set_user now updates x) \<noteq> None \<and>
                u_pseudonymousId v = u_pseudonymousId (set_user now updates x)))"
      by blast
    from only [OF x] c show ?R by simp
  next
    assume ?R
    with u show ?L by blast
  qed
  have res: "find (\<lambda>u. u_id u = id') (users d) = Some u"
    using assms(2) by (simp add: getUser_def)
  show ?thesis
    unfolding updateUser_def cond res by simp
qed

text \<open>
  C7 (as amended). \<^verbatim>\<open>updateUser\<close> patches every supplied field of the identity, wallet
  address and pseudonymous id included, refreshes \<^verbatim>\<open>updatedAt\<close> and leaves the other
  identities alone; a field that is not supplied keeps its value, so a patch of \<^verbatim>\<open>publicKey\<close>
  alone changes neither wallet address nor pseudonymous id. The call is rejected, the store
  unchanged, exactly when the resulting wallet address or non-null pseudonymous id is held by
  another identity.
\<close>

theorem updateUser_patches:
  assumes "distinct (map u_id (users d))" and "getUser d id' = Some u"
    and "w' = (case pu_walletAddress updates of Absent \<Rightarrow> u_walletAddress u | Given w \<Rightarrow> w)"
    and "p' = (case pu_pseudonymousId updates of Absent \<Rightarrow> u_pseudonymousId u | Given p \<Rightarrow> p)"
  shows "if \<exists>v \<in> set (users d). u_id v \<noteq> id' \<and>
                 (u_walletAddress v = w' \<or> (p' \<noteq> None \<and> u_pseudonymousId v = p'))
         then updateUser now id' updates d = (Inl UniqueViolation, d)
         else \<exists>u'. fst (updateUser now id' updates d) = Inr (Some u') \<and>
                 getUser (snd (updateUser now id' updates d)) id' = Some u' \<and>
                 u_walletAddress u' = w' \<and>
                 u_pseudonymousId u' = p' \<and>
                 u_publicKey u' = (case pu_publicKey updates of Absent \<Rightarrow> u_publicKey u | Given k \<Rightarrow> k) \<and>
                 u_chain u' = (case pu_chain updates of Absent \<Rightarrow> u_chain u | Given c \<Rightarrow> c) \<and>
                 u_id u' = id' \<and> u_createdAt u' = u_createdAt u \<and> u_updatedAt u' = now \<and>
                 (\<forall>j. j \<noteq> id' \<longrightarrow> getUser (snd (updateUser now id' updates d)) j = getUser d j)"
proof -
  let ?u' = "set_user now updates u"
  let ?d' = "d\<lparr>users := map (\<lambda>x. if u_id x = id' then set_user now updates x else x) (users d)\<rparr>"
  from assms(2) have id: "u_id u = id'"
    by (auto simp: getUser_def find_Some_iff)
  have w: "u_walletAddress ?u' = w'" and p: "u_pseudonymousId ?u' = p'"
    by (simp_all add: set_user_def patch_def assms(3,4))
  have k: "u_publicKey ?u' = (case pu_publicKey updates of Absent \<Rightarrow> u_publicKey u | Given k \<Rightarrow> k)"
    and c: "u_chain ?u' = (case pu_chain updates of Absent \<Rightarrow> u_chain u | Given c \<Rightarrow> c)"
    and t: "u_id ?u' = id'" "u_createdAt ?u' = u_createdAt u" "u_updatedAt ?u' = now"
    by (simp_all add: set_user_def patch_def id)
  have "find (\<lambda>x. u_id x = id') (map (\<lambda>x. if u_id x = id' then set_user now updates x else x) (users d))
      = map_option (set_user now updates) (find (\<lambda>x. u_id x = id') (users d))"
    by (rule find_id_map) (rule set_user_id)
  with assms(2) have f1: "getUser ?d' id' = Some ?u'"
    by (simp add: getUser_def)
  have f2: "getUser ?d' j = getUser d j" if "j \<noteq> id'" for j
  proof -
    have "find (\<lambda>x. u_id x = j) (map (\<lambda>x. if u_id x = id' then set_user now updates x else x) (users d))
      = find (\<lambda>x. u_id x = j) (users d)"
      using set_user_id that by (rule find_other_id_map)
    then show ?thesis
      by (simp add: getUser_def)
  qed
  note tgt = updateUser_target [OF assms(1,2), of now updates, unfolded w p]
  show ?thesis
  proof (cases "\<exists>v \<in> set (users d). u_id v \<noteq> id' \<and>
                 (u_walletAddress v = w' \<or> (p' \<noteq> None \<and> u_pseudonymousId v = p'))")
    case True
    then have "updateUser now id' updates d = (Inl UniqueViolation, d)"
      by (simp only: tgt if_True)
    with True show ?thesis
      by (simp only: if_True)
  next
    case False
    then have r: "updateUser now id' updates d = (Inr (Some ?u'), ?d')"
      by (simp only: tgt if_False)
    have "fst (updateUser now id' updates d) = Inr (Some ?u') \<and>
          getUser (snd (updateUser now id' updates d)) id' = Some ?u' \<and>
          u_walletAddress ?u' = w' \<and> u_pseudonymousId ?u' = p' \<and>
          u_publicKey ?u' = (case pu_publicKey updates of Absent \<Rightarrow> u_publicKey u | Given k \<Rightarrow> k) \<and>
          u_chain ?u' = (case pu_chain updates of Absent \<Rightarrow> u_chain u | Given c \<Rightarrow> c) \<and>
          u_id ?u' = id' \<and> u_createdAt ?u' = u_createdAt u \<and> u_updatedAt ?u' = now \<and>
          (\<forall>j. j \<noteq> id' \<longrightarrow> getUser (snd (updateUser now id' updates d)) j = getUser d j)"
      unfolding r fst_conv snd_conv using f1 f2 w p k c t by blast
    then have "\<exists>u'. fst (updateUser now id' updates d) = Inr (Some u') \<and>
                 getUser (snd (updateUser now id' updates d)) id' = Some u' \<and>
                 u_walletAddress u' = w' \<and>
                 u_pseudonymousId u' = p' \<and>
                 u_publicKey u' = (case pu_publicKey updates of Absent \<Rightarrow> u_publicKey u | Given k \<Rightarrow> k) \<and>
                 u_chain u' = (case pu_chain updates of Absent \<Rightarrow> u_chain u | Given c \<Rightarrow> c) \<and>
                 u_id u' = id' \<and> u_createdAt u' = u_createdAt u \<and> u_updatedAt u' = now \<and>
                 (\<forall>j. j \<noteq> id' \<longrightarrow> getUser (snd (updateUser now id' updates d)) j = getUser d j)"
      by (rule exI)
    with False show ?thesis
      by (simp only: if_False)
  qed
qed

lemma dbTwoUsers_eq:
  "dbTwoUsers =
    \<lparr>users = [\<lparr>u_id = 1, u_walletAddress = ''0xAA'', u_chain = ''ethereum'', u_publicKey = None,
        u_pseudonymousId = Some ''anon_A'', u_createdAt = 0, u_updatedAt = 0\<rparr>,
       \<lparr>u_id = 2, u_walletAddress = ''0xBB'', u_chain = ''solana'', u_publicKey = None,
        u_pseudonymousId = Some ''anon_B'', u_createdAt = 5, u_updatedAt = 5\<rparr>],
     reputationScores = [], leaderboard = [], zkProofs = [], users_seq = 2,
     reputationScores_seq = 0, leaderboard_seq = 0, zkProofs_seq = 0\<rparr>"
  by (simp add: dbTwoUsers_def userA_def userB_def emptyDb_def createUser_def Let_def)

theorem updateUser_patches_witness:
  "updateUser 50 1 takeWalletB dbTwoUsers = (Inl UniqueViolation, dbTwoUsers) \<and>
   (\<exists>u'. fst (updateUser 50 1 keyOnly dbTwoUsers) = Inr (Some u') \<and>
         getUser (snd (updateUser 50 1 keyOnly dbTwoUsers)) 1 = Some u' \<and>
         u_walletAddress u' = ''0xAA'' \<and> u_pseudonymousId u' = Some ''anon_A'' \<and>
         u_publicKey u' = Some ''0x04c9'')"
proof -
  have pk: "distinct (map u_id (users dbTwoUsers))"
    by (simp add: dbTwoUsers_eq)
  have g: "getUser dbTwoUsers 1 =
      Some \<lparr>u_id = 1, u_walletAddress = ''0xAA'', u_chain = ''ethereum'', u_publicKey = None,
        u_pseudonymousId = Some ''anon_A'', u_createdAt = 0, u_updatedAt = 0\<rparr>"
    by (simp add: dbTwoUsers_eq getUser_def)
  have us: "users dbTwoUsers = [\<lparr>u_id = 1, u_walletAddress = ''0xAA'', u_chain = ''ethereum'', u_publicKey = None,
        u_pseudonymousId = Some ''anon_A'', u_createdAt = 0, u_updatedAt = 0\<rparr>,
       \<lparr>u_id = 2, u_walletAddress = ''0xBB'', u_chain = ''solana'', u_publicKey = None,
        u_pseudonymousId = Some ''anon_B'', u_createdAt = 5, u_updatedAt = 5\<rparr>]"
    by (simp add: dbTwoUsers_eq)
  have a: "updateUser 50 1 takeWalletB dbTwoUsers = (Inl UniqueViolation, dbTwoUsers)"
    using updateUser_patches [OF pk g refl refl, of takeWalletB 50]
    by (simp add: us takeWalletB_def)
  have b: "\<exists>u'. fst (updateUser 50 1 keyOnly dbTwoUsers) = Inr (Some u') \<and>
         getUser (snd (updateUser 50 1 keyOnly dbTwoUsers)) 1 = Some u' \<and>
         u_walletAddress u' = ''0xAA'' \<and> u_pseudonymousId u' = Some ''anon_A'' \<and>
         u_publicKey u' = Some ''0x04c9''"
    using updateUser_patches [OF pk g refl refl, of keyOnly 50]
    by (simp add: us keyOnly_def) blast
  from a b show ?thesis ..
qed

text \<open>
  C7 as stated fails: a patch that changes the wallet address and the pseudonymous id of
  identity 1 is accepted and stored.
\<close>

theorem updateUser_rebinds_counterexample:
  "getUser (snd (createUser 0 userA emptyDb)) 1 =
     Some \<lparr>u_id = 1, u_walletAddress = ''0xAA'', u_chain = ''ethereum'', u_publicKey = None,
        u_pseudonymousId = Some ''anon_A'', u_createdAt = 0, u_updatedAt = 0\<rparr> \<and>
   fst (updateUser 50 1 rebindWallet (snd (createUser 0 userA emptyDb))) =
     Inr (Some \<lparr>u_id = 1, u_walletAddress = ''0xBB'', u_chain = ''ethereum'', u_publicKey = None,
        u_pseudonymousId = Some ''anon_X'', u_createdAt = 0, u_updatedAt = 50\<rparr>) \<and>
   getUser (snd (updateUser 50 1 rebindWallet (snd (createUser 0 userA emptyDb)))) 1 =
     Some \<lparr>u_id = 1, u_walletAddress = ''0xBB'', u_chain = ''ethereum'', u_publicKey = None,
        u_pseudonymousId = Some ''anon_X'', u_createdAt = 0, u_updatedAt = 50\<rparr>"
  by (simp add: getUser_def createUser_def userA_def emptyDb_def Let_def updateUser_def
      rebindWallet_def set_user_def patch_def)

section \<open>The leaderboard: the loop, the join and the order\<close>

text \<open>The loop in closed form: the store after the first \<open>k\<close> inserts.\<close>

lemma insertLeaderboard_written_row:
  assumes "leaderboard_seq d = q + int i"
  shows "insertLeaderboard (clock i)
           \<lparr>ile_pseudonymousId = sr_pseudonymousId (scores ! i),
            ile_reputationLevel = sr_reputationLevel (scores ! i),
            ile_overallScore = sr_overallScore (scores ! i),
            ile_chain = sr_chain (scores ! i),
            ile_rank = int i + 1\<rparr> d
         = d\<lparr>leaderboard_seq := q + int (Suc i),
             leaderboard := leaderboard d @ [written_row clock q scores i]\<rparr>"
  by (simp add: insertLeaderboard_def written_row_def Let_def assms)

lemma insert_loop_closed:
  assumes "i \<le> length scores" and "leaderboard_seq d = q + int i"
  shows "insert_loop clock scores i d =
           map (\<lambda>k. d\<lparr>leaderboard_seq := q + int k,
                       leaderboard := leaderboard d @ map (written_row clock q scores) [i..<k]\<rparr>)
               [Suc i..<Suc (length scores)]"
  using assms
proof (induction clock scores i d rule: insert_loop.induct)
  case (1 clock scores i d)
  show ?case
  proof (cases "i < length scores")
    case False
    with "1.prems" have "i = length scores" by simp
    then show ?thesis
      by (simp add: insert_loop.simps [of clock scores "length scores" d])
  next
    case True
    let ?d' = "d\<lparr>leaderboard_seq := q + int (Suc i),
                  leaderboard := leaderboard d @ [written_row clock q scores i]\<rparr>"
    have step: "insert_loop clock scores i d = ?d' # insert_loop clock scores (Suc i) ?d'"
      using True insertLeaderboard_written_row [OF "1.prems"(2), of clock scores]
      by (simp add: insert_loop.simps [of clock scores i d] Let_def)
    have ih: "insert_loop clock scores (Suc i) ?d' =
           map (\<lambda>k. ?d'\<lparr>leaderboard_seq := q + int k,
                       leaderboard := leaderboard ?d' @ map (written_row clock q scores) [Suc i..<k]\<rparr>)
               [Suc (Suc i)..<Suc (length scores)]"
      using "1.IH" [OF True refl, of ?d'] True insertLeaderboard_written_row [OF "1.prems"(2), of clock scores]
      by simp
    have tl: "map (\<lambda>k. ?d'\<lparr>leaderboard_seq := q + int k,
                       leaderboard := leaderboard ?d' @ map (written_row clock q scores) [Suc i..<k]\<rparr>)
               [Suc (Suc i)..<Suc (length scores)]
         = map (\<lambda>k. d\<lparr>leaderboard_seq := q + int k,
                       leaderboard := leaderboard d @ map (written_row clock q scores) [i..<k]\<rparr>)
               [Suc (Suc i)..<Suc (length scores)]"
    proof (rule map_cong [OF refl])
      fix k assume "k \<in> set [Suc (Suc i)..<Suc (length scores)]"
      then have "i < k" by (simp del: upt_Suc)
      then have "[i..<k] = i # [Suc i..<k]"
        by (rule upt_conv_Cons)
      then show "?d'\<lparr>leaderboard_seq := q + int k,
                       leaderboard := leaderboard ?d' @ map (written_row clock q scores) [Suc i..<k]\<rparr>
         = d\<lparr>leaderboard_seq := q + int k,
                       leaderboard := leaderboard d @ map (written_row clock q scores) [i..<k]\<rparr>"
        by simp
    qed
    have hd: "[Suc i..<Suc (length scores)] = Suc i # [Suc (Suc i)..<Suc (length scores)]"
      using True by (simp add: upt_conv_Cons)
    show ?thesis
      unfolding step ih tl hd by simp
  qed
qed

lemma updateLeaderboard_run_closed:
  "updateLeaderboard_run clock scores d =
     map (\<lambda>k. d\<lparr>leaderboard_seq := leaderboard_seq d + int k,
                 leaderboard := map (written_row clock (leaderboard_seq d) scores) [0..<k]\<rparr>)
         [0..<Suc (length scores)]"
proof -
  let ?d0 = "d\<lparr>leaderboard := []\<rparr>"
  have "insert_loop clock scores 0 ?d0 =
           map (\<lambda>k. ?d0\<lparr>leaderboard_seq := leaderboard_seq d + int k,
                       leaderboard := leaderboard ?d0 @ map (written_row clock (leaderboard_seq d) scores) [0..<k]\<rparr>)
               [Suc 0..<Suc (length scores)]"
    by (rule insert_loop_closed) simp_all
  moreover have "[0..<Suc (length scores)] = 0 # [Suc 0..<Suc (length scores)]"
    by (rule upt_conv_Cons) simp
  ultimately show ?thesis
    by (simp add: updateLeaderboard_run_def Let_def)
qed

lemma updateLeaderboard_run_last:
  "last (updateLeaderboard_run clock scores d) =
     d\<lparr>leaderboard_seq := leaderboard_seq d + int (length scores),
       leaderboard := map (written_row clock (leaderboard_seq d) scores) [0..<length scores]\<rparr>"
  unfolding updateLeaderboard_run_closed by (simp add: last_map del: upt_Suc)

lemma select_scores_delete [simp]: "select_scores (d\<lparr>leaderboard := lb\<rparr>) = select_scores d"
  by (simp add: select_scores_def)

lemma updateLeaderboard_elim:
  assumes "updateLeaderboard clock d states d'"
  obtains scores where "order_by_desc (select_scores d) scores"
    and "states = updateLeaderboard_run clock scores d"
    and "d' = last (updateLeaderboard_run clock scores d)"
  using assms by (auto elim: updateLeaderboard.cases)

lemma updateLeaderboard_final:
  assumes "updateLeaderboard clock d states d'"
  obtains scores where "order_by_desc (select_scores d) scores"
    and "states = map (\<lambda>k. d\<lparr>leaderboard_seq := leaderboard_seq d + int k,
                 leaderboard := map (written_row clock (leaderboard_seq d) scores) [0..<k]\<rparr>)
             [0..<Suc (length scores)]"
    and "d' = d\<lparr>leaderboard_seq := leaderboard_seq d + int (length scores),
       leaderboard := map (written_row clock (leaderboard_seq d) scores) [0..<length scores]\<rparr>"
proof -
  from assms obtain scores where s: "order_by_desc (select_scores d) scores"
    and st: "states = updateLeaderboard_run clock scores d"
    and d': "d' = last (updateLeaderboard_run clock scores d)"
    by (rule updateLeaderboard_elim)
  show thesis
  proof (rule that [of scores])
    show "order_by_desc (select_scores d) scores" by (rule s)
    show "states = map (\<lambda>k. d\<lparr>leaderboard_seq := leaderboard_seq d + int k,
                 leaderboard := map (written_row clock (leaderboard_seq d) scores) [0..<k]\<rparr>)
             [0..<Suc (length scores)]"
      unfolding st by (rule updateLeaderboard_run_closed)
    show "d' = d\<lparr>leaderboard_seq := leaderboard_seq d + int (length scores),
       leaderboard := map (written_row clock (leaderboard_seq d) scores) [0..<length scores]\<rparr>"
      unfolding d' by (rule updateLeaderboard_run_last)
  qed
qed

lemma map_written_row_rank:
  "map lb_rank (map (written_row clock q scores) [0..<n]) = map int [1..<Suc n]"
proof -
  have "map int [1..<Suc n] = map int (map Suc [0..<n])"
    by (simp only: map_Suc_upt One_nat_def)
  then show ?thesis
    by (simp add: written_row_def comp_def add.commute)
qed

lemma map_written_row_entry_row:
  "map entry_row (map (written_row clock q scores) [0..<length scores]) = scores"
proof -
  have "map entry_row (map (written_row clock q scores) [0..<length scores])
        = map ((!) scores) [0..<length scores]"
    by (simp add: entry_row_def written_row_def)
  then show ?thesis
    by (simp only: map_nth)
qed

lemma updateLeaderboard_rows:
  assumes "updateLeaderboard clock d states d'"
  shows "order_by_desc (select_scores d) (map entry_row (leaderboard d'))"
    and "map lb_rank (leaderboard d') = map int [1..<Suc (length (leaderboard d'))]"
    and "users d' = users d" and "reputationScores d' = reputationScores d"
    and "zkProofs d' = zkProofs d"
proof -
  from assms obtain scores where s: "order_by_desc (select_scores d) scores"
    and d': "d' = d\<lparr>leaderboard_seq := leaderboard_seq d + int (length scores),
       leaderboard := map (written_row clock (leaderboard_seq d) scores) [0..<length scores]\<rparr>"
    by (rule updateLeaderboard_final)
  have lb: "leaderboard d' = map (written_row clock (leaderboard_seq d) scores) [0..<length scores]"
    by (simp add: d')
  show "order_by_desc (select_scores d) (map entry_row (leaderboard d'))"
    unfolding lb map_written_row_entry_row by (rule s)
  show "map lb_rank (leaderboard d') = map int [1..<Suc (length (leaderboard d'))]"
    unfolding lb map_written_row_rank by simp
  show "users d' = users d" "reputationScores d' = reputationScores d" "zkProofs d' = zkProofs d"
    by (simp_all add: d')
qed

text \<open>
  \<^verbatim>\<open>updateLeaderboard\<close> always completes: the store can always answer the select, a stable
  sort of the join being one such answer.
\<close>

lemma order_by_desc_exists:
  "order_by_desc rows (sort_key (\<lambda>r. - sr_overallScore r) rows)"
proof -
  have "sorted (map (\<lambda>r. - sr_overallScore r) (sort_key (\<lambda>r. - sr_overallScore r) rows))"
    by (rule sorted_sort_key)
  then have "sorted_wrt (\<lambda>a b. sr_overallScore b \<le> sr_overallScore a)
      (sort_key (\<lambda>r. - sr_overallScore r) rows)"
    by (simp add: sorted_map)
  then show ?thesis
    by (simp add: order_by_desc_def)
qed

lemma updateLeaderboard_total:
  "\<exists>states d'. updateLeaderboard clock d states d'"
  using updateLeaderboard.run [of d "sort_key (\<lambda>r. - sr_overallScore r) (select_scores d)" clock]
    order_by_desc_exists [of "select_scores d"]
  by auto

text \<open>With \<^verbatim>\<open>users.id\<close> a key, the join looks the owner of each record up.\<close>

lemma join_no_match:
  "k \<notin> u_id ` set us \<Longrightarrow> concat (map (\<lambda>u. if k = u_id u then g u else []) us) = []"
  by (induction us) auto

lemma join_by_key:
  "distinct (map u_id us) \<Longrightarrow>
   concat (map (\<lambda>u. if k = u_id u then g u else []) us) =
     (case find (\<lambda>u. u_id u = k) us of None \<Rightarrow> [] | Some u \<Rightarrow> g u)"
proof (induction us)
  case Nil
  then show ?case by simp
next
  case (Cons u us)
  show ?case
  proof (cases "k = u_id u")
    case True
    with Cons.prems have "k \<notin> u_id ` set us" by auto
    then have "concat (map (\<lambda>u. if k = u_id u then g u else []) us) = []"
      by (rule join_no_match)
    with True show ?thesis by simp
  next
    case False
    with Cons show ?thesis by auto
  qed
qed

lemma select_scores_joined:
  assumes "distinct (map u_id (users d))"
  shows "select_scores d = concat (map (joined d) (reputationScores d))"
proof -
  have "concat (map (\<lambda>u. if rs_userId r = u_id u
        then (case u_pseudonymousId u of
                None \<Rightarrow> []
              | Some p \<Rightarrow> [\<lparr>sr_pseudonymousId = p,
                            sr_reputationLevel = rs_reputationLevel r,
                            sr_overallScore = rs_overallScore r,
                            sr_chain = u_chain u\<rparr>])
        else []) (users d)) = joined d r" for r
    unfolding joined_def getUser_def by (rule join_by_key [OF assms])
  then show ?thesis
    by (simp add: select_scores_def)
qed

lemma getUser_Some_iff:
  assumes "distinct (map u_id (users d))"
  shows "getUser d k = Some u \<longleftrightarrow> u \<in> set (users d) \<and> u_id u = k"
proof
  assume "getUser d k = Some u"
  then show "u \<in> set (users d) \<and> u_id u = k"
    by (auto simp: getUser_def find_Some_iff)
next
  assume a: "u \<in> set (users d) \<and> u_id u = k"
  then obtain v where v: "find (\<lambda>x. u_id x = k) (users d) = Some v"
    by (cases "find (\<lambda>x. u_id x = k) (users d)") (auto simp: find_None_iff)
  from find_distinct_id [OF assms v] a have "u = v" by blast
  with v show "getUser d k = Some u"
    by (simp add: getUser_def)
qed

lemma getUser_unique:
  assumes "distinct (map u_id (users d))" and "getUser d k = Some u"
    and "v \<in> set (users d)" and "u_id v = k"
  shows "v = u"
  using find_distinct_id [OF assms(1) _ assms(3,4)] assms(2) by (simp add: getUser_def)

lemma getUser_SomeD:
  assumes "getUser d k = Some u"
  shows "u \<in> set (users d)" and "u_id u = k"
  using assms by (auto simp: getUser_def find_Some_iff)

lemma length_joined:
  assumes "distinct (map u_id (users d))"
  shows "length (joined d r) =
     (if \<exists>u \<in> set (users d). u_id u = rs_userId r \<and> u_pseudonymousId u \<noteq> None then 1 else 0)"
proof (cases "getUser d (rs_userId r)")
  case None
  then have "\<not> (\<exists>u \<in> set (users d). u_id u = rs_userId r)"
    by (auto simp: getUser_def find_None_iff)
  with None show ?thesis
    by (auto simp: joined_def)
next
  case (Some u)
  note u = getUser_SomeD [OF Some] and only = getUser_unique [OF assms Some]
  have "(\<exists>v \<in> set (users d). u_id v = rs_userId r \<and> u_pseudonymousId v \<noteq> None)
      \<longleftrightarrow> u_pseudonymousId u \<noteq> None"
    using u only by blast
  with Some show ?thesis
    by (auto simp: joined_def split: option.splits)
qed

lemma length_concat_indicator:
  assumes "\<And>x. x \<in> set xs \<Longrightarrow> length (f x) = (if P x then 1 else 0)"
  shows "length (concat (map f xs)) = length (filter P xs)"
  using assms by (induction xs) auto

lemma length_select_scores:
  assumes "distinct (map u_id (users d))"
  shows "length (select_scores d) =
     length (filter (\<lambda>r. \<exists>u \<in> set (users d). u_id u = rs_userId r \<and> u_pseudonymousId u \<noteq> None)
               (reputationScores d))"
  unfolding select_scores_joined [OF assms]
  by (rule length_concat_indicator) (rule length_joined [OF assms])

lemma pseudonym_unique:
  assumes "distinct (List.map_filter u_pseudonymousId us)"
    and "u \<in> set us" "v \<in> set us" "u_pseudonymousId u = Some p" "u_pseudonymousId v = Some p"
  shows "u = v"
proof -
  from assms(1) have "inj_on (the \<circ> u_pseudonymousId) (set (filter (\<lambda>x. u_pseudonymousId x \<noteq> None) us))"
    by (simp add: map_filter_def distinct_map)
  moreover have "u \<in> set (filter (\<lambda>x. u_pseudonymousId x \<noteq> None) us)"
    "v \<in> set (filter (\<lambda>x. u_pseudonymousId x \<noteq> None) us)"
    using assms(2-5) by simp_all
  moreover have "(the \<circ> u_pseudonymousId) u = (the \<circ> u_pseudonymousId) v"
    using assms(4,5) by simp
  ultimately show ?thesis
    by (meson inj_onD)
qed

lemma set_joined:
  assumes "distinct (map u_id (users d))"
  shows "x \<in> set (joined d r) \<longleftrightarrow>
     (\<exists>u \<in> set (users d). u_id u = rs_userId r \<and> u_pseudonymousId u = Some (sr_pseudonymousId x) \<and>
        sr_reputationLevel x = rs_reputationLevel r \<and> sr_overallScore x = rs_overallScore r \<and>
        sr_chain x = u_chain u)"
proof (cases "getUser d (rs_userId r)")
  case None
  then have "\<not> (\<exists>u \<in> set (users d). u_id u = rs_userId r)"
    by (auto simp: getUser_def find_None_iff)
  with None show ?thesis
    by (auto simp: joined_def)
next
  case (Some u)
  note u = getUser_SomeD [OF Some] and only = getUser_unique [OF assms Some]
  have "(\<exists>v \<in> set (users d). u_id v = rs_userId r \<and> u_pseudonymousId v = Some (sr_pseudonymousId x) \<and>
        sr_reputationLevel x = rs_reputationLevel r \<and> sr_overallScore x = rs_overallScore r \<and>
        sr_chain x = u_chain v)
     \<longleftrightarrow> (u_pseudonymousId u = Some (sr_pseudonymousId x) \<and>
        sr_reputationLevel x = rs_reputationLevel r \<and> sr_overallScore x = rs_overallScore r \<and>
        sr_chain x = u_chain u)"
    using u only by blast
  with Some show ?thesis
    by (cases x) (auto simp: joined_def split: option.splits)
qed

lemma distinct_pseudonyms_joined:
  assumes "distinct (map u_id (users d))" and "distinct (List.map_filter u_pseudonymousId (users d))"
    and "distinct (map rs_userId rs)"
  shows "distinct (map sr_pseudonymousId (concat (map (joined d) rs)))"
  using assms(3)
proof (induction rs)
  case Nil
  then show ?case by simp
next
  case (Cons r rs)
  have one: "distinct (map sr_pseudonymousId (joined d r))"
    by (simp add: joined_def split: option.splits)
  have disj: "sr_pseudonymousId x \<noteq> sr_pseudonymousId y"
    if "x \<in> set (joined d r)" "r' \<in> set rs" "y \<in> set (joined d r')" for x y r'
  proof
    assume eq: "sr_pseudonymousId x = sr_pseudonymousId y"
    from that(1) obtain u where u: "u \<in> set (users d)" "u_id u = rs_userId r"
        "u_pseudonymousId u = Some (sr_pseudonymousId x)"
      using set_joined [OF assms(1)] by blast
    from that(3) obtain v where v: "v \<in> set (users d)" "u_id v = rs_userId r'"
        "u_pseudonymousId v = Some (sr_pseudonymousId y)"
      using set_joined [OF assms(1)] by blast
    from pseudonym_unique [OF assms(2) u(1) v(1) u(3)] v(3) eq have "u = v" by simp
    with u(2) v(2) have "rs_userId r = rs_userId r'" by simp
    with that(2) Cons.prems show False by force
  qed
  from Cons have ih: "distinct (map sr_pseudonymousId (concat (map (joined d) rs)))" by simp
  show ?case
    using one ih disj by (fastforce simp: distinct_map)
qed

lemma eligible_pseudonyms:
  assumes "distinct (map u_id (users d))" and "distinct (List.map_filter u_pseudonymousId (users d))"
    and "distinct (map rs_userId (reputationScores d))"
  shows "mset (map sr_pseudonymousId (select_scores d)) =
         mset (map (the \<circ> u_pseudonymousId) (filter (eligible d) (users d)))"
    and "distinct (map sr_pseudonymousId (select_scores d))"
proof -
  let ?L = "map sr_pseudonymousId (select_scores d)"
  let ?R = "map (the \<circ> u_pseudonymousId) (filter (eligible d) (users d))"
  show dl: "distinct ?L"
    unfolding select_scores_joined [OF assms(1)]
    by (rule distinct_pseudonyms_joined [OF assms])
  have "filter (eligible d) (users d) =
        filter (\<lambda>u. \<exists>r \<in> set (reputationScores d). rs_userId r = u_id u)
          (filter (\<lambda>u. u_pseudonymousId u \<noteq> None) (users d))"
    unfolding filter_filter by (rule filter_cong [OF refl]) (auto simp: eligible_def)
  moreover have "distinct (map (the \<circ> u_pseudonymousId) (filter (\<lambda>u. u_pseudonymousId u \<noteq> None) (users d)))"
    using assms(2) by (simp add: map_filter_def)
  ultimately have dr: "distinct ?R"
    by (simp only: distinct_map_filter)
  have "set ?L = set ?R"
  proof (intro set_eqI iffI)
    fix p assume "p \<in> set ?L"
    then obtain x r where r: "r \<in> set (reputationScores d)" and x: "x \<in> set (joined d r)"
      and p: "p = sr_pseudonymousId x"
      unfolding select_scores_joined [OF assms(1)] by auto
    from x obtain u where u: "u \<in> set (users d)" "u_id u = rs_userId r"
      "u_pseudonymousId u = Some (sr_pseudonymousId x)"
      using set_joined [OF assms(1)] by blast
    from u r have "eligible d u"
      by (auto simp: eligible_def)
    with u p show "p \<in> set ?R"
      by (auto simp: image_iff intro!: bexI [of _ u])
  next
    fix p assume "p \<in> set ?R"
    then obtain u where u: "u \<in> set (users d)" "eligible d u" "p = the (u_pseudonymousId u)"
      by auto
    then obtain r where r: "r \<in> set (reputationScores d)" "rs_userId r = u_id u"
      and q: "u_pseudonymousId u = Some p"
      by (auto simp: eligible_def)
    let ?x = "\<lparr>sr_pseudonymousId = p, sr_reputationLevel = rs_reputationLevel r,
               sr_overallScore = rs_overallScore r, sr_chain = u_chain u\<rparr>"
    have "?x \<in> set (joined d r)"
      unfolding set_joined [OF assms(1)] using u(1) r(2) q by auto
    with r(1) have "?x \<in> set (select_scores d)"
      unfolding select_scores_joined [OF assms(1)] by auto
    then have "sr_pseudonymousId ?x \<in> sr_pseudonymousId ` set (select_scores d)"
      by (rule imageI)
    then show "p \<in> set ?L" by simp
  qed
  with dl dr show "mset ?L = mset ?R"
    by (simp only: set_eq_iff_mset_eq_distinct)
qed

lemma map_entry_row_pseudonym:
  "map sr_pseudonymousId (map entry_row lb) = map lb_pseudonymousId lb"
  by (simp add: entry_row_def)

lemma in_concat_map:
  "x \<in> set (concat (map f xs)) \<Longrightarrow> \<exists>y \<in> set xs. x \<in> set (f y)"
  by auto

lemma select_scores_mem:
  assumes "x \<in> set (select_scores d)"
  shows "\<exists>r \<in> set (reputationScores d). \<exists>u \<in> set (users d).
           rs_userId r = u_id u \<and> u_pseudonymousId u = Some (sr_pseudonymousId x) \<and>
           sr_reputationLevel x = rs_reputationLevel r \<and> sr_overallScore x = rs_overallScore r \<and>
           sr_chain x = u_chain u"
proof -
  let ?f = "\<lambda>r u. if rs_userId r = u_id u
        then (case u_pseudonymousId u of
                None \<Rightarrow> []
              | Some p \<Rightarrow> [\<lparr>sr_pseudonymousId = p,
                            sr_reputationLevel = rs_reputationLevel r,
                            sr_overallScore = rs_overallScore r,
                            sr_chain = u_chain u\<rparr>])
        else []"
  from assms have "x \<in> set (concat (map (\<lambda>r. concat (map (?f r) (users d))) (reputationScores d)))"
    by (simp only: select_scores_def)
  then have "\<exists>r \<in> set (reputationScores d). x \<in> set (concat (map (?f r) (users d)))"
    by (rule in_concat_map)
  then obtain r where r: "r \<in> set (reputationScores d)"
    and xr: "x \<in> set (concat (map (?f r) (users d)))"
    by (rule bexE)
  from xr have "\<exists>u \<in> set (users d). x \<in> set (?f r u)"
    by (rule in_concat_map)
  then obtain u where u: "u \<in> set (users d)" and x: "x \<in> set (?f r u)"
    by (rule bexE)
  have eq: "rs_userId r = u_id u"
  proof (rule ccontr)
    assume "rs_userId r \<noteq> u_id u"
    with x show False by simp
  qed
  obtain p where p: "u_pseudonymousId u = Some p"
    using x eq by (cases "u_pseudonymousId u") simp_all
  from x eq p have "x = \<lparr>sr_pseudonymousId = p, sr_reputationLevel = rs_reputationLevel r,
      sr_overallScore = rs_overallScore r, sr_chain = u_chain u\<rparr>"
    by simp
  with eq p have "rs_userId r = u_id u \<and> u_pseudonymousId u = Some (sr_pseudonymousId x) \<and>
           sr_reputationLevel x = rs_reputationLevel r \<and> sr_overallScore x = rs_overallScore r \<and>
           sr_chain x = u_chain u"
    by simp
  with r u show ?thesis by blast
qed

lemma select_scores_relabel:
  assumes "inj g"
  shows "select_scores (relabel g w k d) = select_scores d"
proof -
  have eq: "g a = g b \<longleftrightarrow> a = b" for a b
    using assms by (auto dest: injD)
  show ?thesis
    by (simp add: select_scores_def relabel_def comp_def eq cong: if_cong option.case_cong)
qed

lemma updateLeaderboard_depends:
  assumes "updateLeaderboard clock d states d'"
    and "select_scores d2 = select_scores d" and "leaderboard_seq d2 = leaderboard_seq d"
  shows "\<exists>states2 d2'. updateLeaderboard clock d2 states2 d2' \<and>
           map leaderboard states2 = map leaderboard states \<and> leaderboard d2' = leaderboard d'"
proof -
  from assms(1) obtain scores where s: "order_by_desc (select_scores d) scores"
    and st: "states = updateLeaderboard_run clock scores d"
    and d': "d' = last (updateLeaderboard_run clock scores d)"
    by (rule updateLeaderboard_elim)
  from s have "order_by_desc (select_scores (d2\<lparr>leaderboard := []\<rparr>)) scores"
    by (simp add: assms(2))
  then have run2: "updateLeaderboard clock d2 (updateLeaderboard_run clock scores d2)
      (last (updateLeaderboard_run clock scores d2))"
    by (rule updateLeaderboard.run)
  have "map leaderboard (updateLeaderboard_run clock scores d2) = map leaderboard states"
    unfolding st updateLeaderboard_run_closed by (simp add: assms(3) del: upt_Suc)
  moreover have "leaderboard (last (updateLeaderboard_run clock scores d2)) = leaderboard d'"
    unfolding d' updateLeaderboard_run_last by (simp add: assms(3))
  ultimately show ?thesis
    using run2 by blast
qed

text \<open>Rank and score: positions in the table are ranks, and the table is sorted.\<close>

lemma rank_order:
  assumes "map lb_rank lb = map int [1..<Suc (length lb)]"
    and "sorted_wrt (\<lambda>a b. sr_overallScore b \<le> sr_overallScore a) (map entry_row lb)"
    and "e1 \<in> set lb" "e2 \<in> set lb" "lb_rank e1 < lb_rank e2"
  shows "lb_overallScore e2 \<le> lb_overallScore e1"
proof -
  from assms(3) obtain i where i: "i < length lb" "lb ! i = e1"
    by (auto simp: in_set_conv_nth)
  from assms(4) obtain j where j: "j < length lb" "lb ! j = e2"
    by (auto simp: in_set_conv_nth)
  have rk: "lb_rank (lb ! k) = int k + 1" if "k < length lb" for k
  proof -
    have "lb_rank (lb ! k) = map lb_rank lb ! k"
      using that by simp
    also have "\<dots> = int ([1..<Suc (length lb)] ! k)"
      using that unfolding assms(1) by (simp del: upt_Suc)
    also have "\<dots> = int k + 1"
      using that by (simp del: upt_Suc)
    finally show ?thesis .
  qed
  from assms(5) have "lb_rank (lb ! i) < lb_rank (lb ! j)"
    by (simp only: i j)
  then have "i < j"
    by (simp add: rk [OF i(1)] rk [OF j(1)])
  with assms(2) j(1) have "sr_overallScore (map entry_row lb ! j) \<le> sr_overallScore (map entry_row lb ! i)"
    by (simp add: sorted_wrt_iff_nth_less)
  with i j \<open>i < j\<close> show ?thesis
    by (simp add: entry_row_def)
qed

lemma rank_index:
  assumes "map lb_rank lb = map int [1..<Suc (length lb)]" and "e \<in> set lb"
  obtains i where "i < length lb" and "lb ! i = e" and "lb_rank e = int i + 1"
proof -
  from assms(2) obtain i where i: "i < length lb" "lb ! i = e"
    by (auto simp: in_set_conv_nth)
  have "lb_rank (lb ! i) = map lb_rank lb ! i"
    using i(1) by simp
  also have "\<dots> = int ([1..<Suc (length lb)] ! i)"
    using i(1) unfolding assms(1) by (simp del: upt_Suc)
  also have "\<dots> = int i + 1"
    using i(1) by (simp del: upt_Suc)
  finally have "lb_rank e = int i + 1"
    by (simp only: i(2))
  with i show thesis
    by (rule that)
qed

lemma strict_rank_order:
  assumes "map lb_rank lb = map int [1..<Suc (length lb)]"
    and "sorted_wrt (\<lambda>a b. sr_overallScore b \<le> sr_overallScore a) (map entry_row lb)"
    and "e1 \<in> set lb" "e2 \<in> set lb" "lb_overallScore e2 < lb_overallScore e1"
  shows "lb_rank e1 < lb_rank e2"
proof -
  from assms(1,3) obtain i where i: "i < length lb" "lb ! i = e1" "lb_rank e1 = int i + 1"
    by (rule rank_index)
  from assms(1,4) obtain j where j: "j < length lb" "lb ! j = e2" "lb_rank e2 = int j + 1"
    by (rule rank_index)
  have "i < j"
  proof (rule ccontr)
    assume "\<not> i < j"
    then consider "j = i" | "j < i" by linarith
    then show False
    proof cases
      case 1
      with i(2) j(2) assms(5) show False by simp
    next
      case 2
      with assms(2) i(1) have "sr_overallScore (map entry_row lb ! i) \<le> sr_overallScore (map entry_row lb ! j)"
        by (simp add: sorted_wrt_iff_nth_less)
      with i j 2 assms(5) show False
        by (simp add: entry_row_def)
    qed
  qed
  with i(3) j(3) show ?thesis by simp
qed

text \<open>Two descending arrangements of the same rows agree on the scores, and on the rows
  themselves when no score occurs twice.\<close>

lemma sorted_desc_keys_unique:
  fixes f :: "'a \<Rightarrow> int"
  assumes "mset xs = mset ys"
    and "sorted_wrt (\<lambda>a b. f b \<le> f a) xs" and "sorted_wrt (\<lambda>a b. f b \<le> f a) ys"
  shows "map f xs = map f ys"
proof -
  have sx: "sorted (rev (map f xs))" and sy: "sorted (rev (map f ys))"
    using assms(2,3) by (simp_all add: sorted_wrt_rev sorted_wrt_map)
  have "mset (rev (map f xs)) = mset (rev (map f ys))"
    using assms(1) by (metis mset_map mset_rev)
  then have "rev (map f xs) = rev (map f ys)"
    using sx sy by (metis properties_for_sort)
  then show ?thesis by simp
qed

lemma sorted_desc_distinct_unique:
  fixes f :: "'a \<Rightarrow> int"
  assumes "mset xs = mset ys"
    and "sorted_wrt (\<lambda>a b. f b \<le> f a) xs" and "sorted_wrt (\<lambda>a b. f b \<le> f a) ys"
    and "distinct (map f xs)"
  shows "xs = ys"
proof -
  have m: "map f xs = map f ys"
    using assms(1-3) by (rule sorted_desc_keys_unique)
  from assms(1) have "set ys = set xs"
    by (metis set_mset_mset)
  moreover from assms(4) have "inj_on f (set xs)"
    by (simp add: distinct_map)
  ultimately have "inj_on f (set xs \<union> set ys)"
    by simp
  with m show ?thesis
    by (rule map_inj_on)
qed

lemma entry_values_from_row:
  assumes "map lb_rank lb1 = map lb_rank lb2" and "map entry_row lb1 = map entry_row lb2"
  shows "map entry_values lb1 = map entry_values lb2"
proof -
  have len: "length lb1 = length lb2"
    using assms(1) by (rule map_eq_imp_length_eq)
  show ?thesis
  proof (rule nth_equalityI)
    show "length (map entry_values lb1) = length (map entry_values lb2)"
      using len by simp
  next
    fix i assume "i < length (map entry_values lb1)"
    then have i: "i < length lb1" "i < length lb2"
      using len by simp_all
    have "lb_rank (lb1 ! i) = lb_rank (lb2 ! i)"
      using assms(1) i by (metis nth_map)
    moreover have "entry_row (lb1 ! i) = entry_row (lb2 ! i)"
      using assms(2) i by (metis nth_map)
    ultimately have "entry_values (lb1 ! i) = entry_values (lb2 ! i)"
      by (simp add: entry_values_def entry_row_def)
    with i show "map entry_values lb1 ! i = map entry_values lb2 ! i"
      by simp
  qed
qed

lemma entry_values_zip:
  "map entry_values lb =
     map (\<lambda>(r, k). \<lparr>ile_pseudonymousId = sr_pseudonymousId r, ile_reputationLevel = sr_reputationLevel r,
                     ile_overallScore = sr_overallScore r, ile_chain = sr_chain r, ile_rank = k\<rparr>)
         (zip (map entry_row lb) (map lb_rank lb))"
  by (induction lb) (simp_all add: entry_values_def entry_row_def)

lemma getLeaderboardPosition_values:
  "getLeaderboardPosition d p =
     map_option ile_rank (find (\<lambda>v. ile_pseudonymousId v = p) (map entry_values (leaderboard d)))"
proof -
  have "find (\<lambda>v. ile_pseudonymousId v = p) (map entry_values lb)
        = map_option entry_values (find (\<lambda>e. lb_pseudonymousId e = p) lb)" for lb
    by (induction lb) (simp_all add: entry_values_def)
  then show ?thesis
    by (simp add: getLeaderboardPosition_def option.map_comp comp_def entry_values_def)
qed

lemma perm3:
  assumes "mset xs = mset [a, b, c]"
  shows "xs \<in> {[a, b, c], [a, c, b], [b, a, c], [b, c, a], [c, a, b], [c, b, a]}"
proof -
  from assms have "length xs = 3"
    by (metis length_Cons list.size(3) numeral_3_eq_3 size_mset)
  then obtain x y z where xs: "xs = [x, y, z]"
    by (auto simp: numeral_3_eq_3 length_Suc_conv)
  from assms show ?thesis
    unfolding xs by (auto simp: add_eq_conv_ex)
qed

section \<open>The constraints hold in every store the operations reach\<close>

lemma set_map_filter: "set (List.map_filter g xs) = {y. \<exists>v \<in> set xs. g v = Some y}"
  by (induction xs) (auto simp: map_filter_simps split: option.splits)

lemma map_update_absent:
  "\<forall>x \<in> set xs. u_id x \<noteq> k \<Longrightarrow> map (\<lambda>x. if u_id x = k then h x else x) xs = xs"
  by (induction xs) auto

lemma distinct_map_filter_update:
  assumes "distinct (map u_id xs)" and "distinct (List.map_filter g xs)"
    and "\<forall>x \<in> set xs. u_id x = k \<longrightarrow>
           (\<forall>v \<in> set xs. u_id v \<noteq> k \<longrightarrow> g (h x) = None \<or> g v \<noteq> g (h x))"
  shows "distinct (List.map_filter g (map (\<lambda>x. if u_id x = k then h x else x) xs))"
  using assms
proof (induction xs)
  case Nil
  then show ?case by (simp add: map_filter_simps)
next
  case (Cons a xs)
  let ?up = "\<lambda>x. if u_id x = k then h x else x"
  from Cons.prems have dx: "distinct (map u_id xs)" and dg: "distinct (List.map_filter g xs)"
    by (auto simp: map_filter_simps split: option.splits)
  show ?case
  proof (cases "u_id a = k")
    case True
    with Cons.prems(1) have "\<forall>x \<in> set xs. u_id x \<noteq> k" by (auto simp: image_iff)
    then have same: "map ?up xs = xs" and others: "\<forall>v \<in> set xs. u_id v \<noteq> k"
      by (simp_all add: map_update_absent)
    from Cons.prems(3) True others
    have "\<forall>v \<in> set xs. g (h a) = None \<or> g v \<noteq> g (h a)" by simp
    then have "\<And>p. g (h a) = Some p \<Longrightarrow> p \<notin> set (List.map_filter g xs)"
      by (auto simp: set_map_filter)
    with True dg show ?thesis
      by (simp add: same map_filter_simps split: option.splits)
  next
    case False
    have ih: "distinct (List.map_filter g (map ?up xs))"
    proof (rule Cons.IH [OF dx dg])
      show "\<forall>x \<in> set xs. u_id x = k \<longrightarrow>
           (\<forall>v \<in> set xs. u_id v \<noteq> k \<longrightarrow> g (h x) = None \<or> g v \<noteq> g (h x))"
        using Cons.prems(3) by simp
    qed
    have fresh: "p \<notin> set (List.map_filter g (map ?up xs))" if p: "g a = Some p" for p
    proof
      assume "p \<in> set (List.map_filter g (map ?up xs))"
      then obtain x where x: "x \<in> set xs" and gx: "g (?up x) = Some p"
        by (auto simp: set_map_filter)
      show False
      proof (cases "u_id x = k")
        case True
        with Cons.prems(3) x False have "g (h x) = None \<or> g a \<noteq> g (h x)" by simp
        with gx True p show False by simp
      next
        case False
        with gx have "g x = Some p" by simp
        with x have "p \<in> set (List.map_filter g xs)"
          by (auto simp: set_map_filter)
        with Cons.prems(2) p show False
          by (simp add: map_filter_simps)
      qed
    qed
    from False ih fresh show ?thesis
      by (simp add: map_filter_simps split: option.splits)
  qed
qed

lemma map_filter_Some: "List.map_filter (\<lambda>x. Some (f x)) xs = map f xs"
  by (induction xs) (simp_all add: map_filter_simps)

lemma distinct_map_update:
  assumes "distinct (map u_id xs)" and "distinct (map f xs)"
    and "\<forall>x \<in> set xs. u_id x = k \<longrightarrow> (\<forall>v \<in> set xs. u_id v \<noteq> k \<longrightarrow> f v \<noteq> f (h x))"
  shows "distinct (map f (map (\<lambda>x. if u_id x = k then h x else x) xs))"
proof -
  have "distinct (List.map_filter (\<lambda>x. Some (f x)) (map (\<lambda>x. if u_id x = k then h x else x) xs))"
    using assms by (intro distinct_map_filter_update) (simp_all add: map_filter_Some)
  then show ?thesis
    by (simp only: map_filter_Some)
qed

lemma map_filter_snoc:
  "List.map_filter g (xs @ [x]) = List.map_filter g xs @ (case g x of None \<Rightarrow> [] | Some y \<Rightarrow> [y])"
  by (induction xs) (simp_all add: map_filter_simps split: option.splits)

lemma constraints_emptyDb: "constraints_hold emptyDb \<and> sequences_ahead emptyDb"
  by (simp add: constraints_hold_def sequences_ahead_def emptyDb_def map_filter_simps)

lemma createUser_unfold:
  "createUser now insertUser d =
     (if \<exists>u \<in> set (users d). u_walletAddress u = iu_walletAddress insertUser \<or>
              (iu_pseudonymousId insertUser \<noteq> None \<and> u_pseudonymousId u = iu_pseudonymousId insertUser)
      then (Inl UniqueViolation, d\<lparr>users_seq := users_seq d + 1\<rparr>)
      else (Inr \<lparr>u_id = users_seq d + 1,
                  u_walletAddress = iu_walletAddress insertUser,
                  u_chain = iu_chain insertUser,
                  u_publicKey = iu_publicKey insertUser,
                  u_pseudonymousId = iu_pseudonymousId insertUser,
                  u_createdAt = now,
                  u_updatedAt = now\<rparr>,
            d\<lparr>users_seq := users_seq d + 1,
              users := users d @ [\<lparr>u_id = users_seq d + 1,
                  u_walletAddress = iu_walletAddress insertUser,
                  u_chain = iu_chain insertUser,
                  u_publicKey = iu_publicKey insertUser,
                  u_pseudonymousId = iu_pseudonymousId insertUser,
                  u_createdAt = now,
                  u_updatedAt = now\<rparr>]\<rparr>))"
  unfolding createUser_def Let_def
  by (rule if_cong) simp_all

lemma createUser_keeps_constraints:
  assumes "constraints_hold d" and "sequences_ahead d"
  shows "constraints_hold (snd (createUser now insertUser d)) \<and>
         sequences_ahead (snd (createUser now insertUser d))"
proof (cases "\<exists>u \<in> set (users d). u_walletAddress u = iu_walletAddress insertUser \<or>
              (iu_pseudonymousId insertUser \<noteq> None \<and> u_pseudonymousId u = iu_pseudonymousId insertUser)")
  case True
  then have "snd (createUser now insertUser d) = d\<lparr>users_seq := users_seq d + 1\<rparr>"
    unfolding createUser_unfold by (simp only: if_True snd_conv)
  with assms show ?thesis
    by (fastforce simp: constraints_hold_def sequences_ahead_def)
next
  case False
  let ?user = "\<lparr>u_id = users_seq d + 1,
                  u_walletAddress = iu_walletAddress insertUser,
                  u_chain = iu_chain insertUser,
                  u_publicKey = iu_publicKey insertUser,
                  u_pseudonymousId = iu_pseudonymousId insertUser,
                  u_createdAt = now,
                  u_updatedAt = now\<rparr>"
  from False have d': "snd (createUser now insertUser d) =
      d\<lparr>users_seq := users_seq d + 1, users := users d @ [?user]\<rparr>"
    unfolding createUser_unfold by (simp only: if_False snd_conv)
  from assms(2) have fresh: "users_seq d + 1 \<notin> u_id ` set (users d)"
    by (fastforce simp: sequences_ahead_def)
  from False have w: "iu_walletAddress insertUser \<notin> u_walletAddress ` set (users d)"
    by auto
  from False have p: "\<And>y. iu_pseudonymousId insertUser = Some y \<Longrightarrow>
      y \<notin> set (List.map_filter u_pseudonymousId (users d))"
    by (auto simp: set_map_filter)
  from assms(1) fresh w p have "constraints_hold (d\<lparr>users_seq := users_seq d + 1, users := users d @ [?user]\<rparr>)"
    by (auto simp: constraints_hold_def map_filter_snoc split: option.splits)
  moreover from assms(2) have "sequences_ahead (d\<lparr>users_seq := users_seq d + 1, users := users d @ [?user]\<rparr>)"
    by (fastforce simp: sequences_ahead_def)
  ultimately show ?thesis
    by (simp only: d')
qed

lemma updateUser_keeps_constraints:
  assumes "constraints_hold d" and "sequences_ahead d"
  shows "constraints_hold (snd (updateUser now id' updates d)) \<and>
         sequences_ahead (snd (updateUser now id' updates d))"
proof (cases "\<exists>u \<in> set (users d). u_id u = id' \<and>
           (\<exists>v \<in> set (users d). u_id v \<noteq> id' \<and>
              (u_walletAddress v = u_walletAddress (set_user now updates u) \<or>
               (u_pseudonymousId (set_user now updates u) \<noteq> None \<and>
                u_pseudonymousId v = u_pseudonymousId (set_user now updates u))))")
  case True
  then have "snd (updateUser now id' updates d) = d"
    unfolding updateUser_def by (simp only: if_True snd_conv)
  with assms show ?thesis by simp
next
  case False
  let ?up = "\<lambda>u. if u_id u = id' then set_user now updates u else u"
  from False have d': "snd (updateUser now id' updates d) = d\<lparr>users := map ?up (users d)\<rparr>"
    unfolding updateUser_def by (simp only: if_False snd_conv)
  from assms(1) have pk: "distinct (map u_id (users d))"
    and uw: "distinct (map u_walletAddress (users d))"
    and up: "distinct (List.map_filter u_pseudonymousId (users d))"
    and fk: "\<forall>r \<in> set (reputationScores d). \<exists>u \<in> set (users d). u_id u = rs_userId r"
    by (simp_all add: constraints_hold_def)
  have ids: "map u_id (map ?up (users d)) = map u_id (users d)"
    by (simp add: set_user_id)
  have nc: "u_walletAddress v \<noteq> u_walletAddress (set_user now updates u) \<and>
        (u_pseudonymousId (set_user now updates u) = None \<or>
         u_pseudonymousId v \<noteq> u_pseudonymousId (set_user now updates u))"
    if "u \<in> set (users d)" "u_id u = id'" "v \<in> set (users d)" "u_id v \<noteq> id'" for u v
    using False that by blast
  have w: "distinct (map u_walletAddress (map ?up (users d)))"
  proof (rule distinct_map_update [OF pk uw])
    show "\<forall>x \<in> set (users d). u_id x = id' \<longrightarrow>
        (\<forall>v \<in> set (users d). u_id v \<noteq> id' \<longrightarrow>
           u_walletAddress v \<noteq> u_walletAddress (set_user now updates x))"
      using nc by blast
  qed
  have p: "distinct (List.map_filter u_pseudonymousId (map ?up (users d)))"
  proof (rule distinct_map_filter_update [OF pk up])
    show "\<forall>x \<in> set (users d). u_id x = id' \<longrightarrow>
        (\<forall>v \<in> set (users d). u_id v \<noteq> id' \<longrightarrow>
           u_pseudonymousId (set_user now updates x) = None \<or>
           u_pseudonymousId v \<noteq> u_pseudonymousId (set_user now updates x))"
      using nc by blast
  qed
  have "u_id ` set (map ?up (users d)) = u_id ` set (users d)"
    using ids by (metis set_map)
  with fk have fk': "\<forall>r \<in> set (reputationScores d). \<exists>u \<in> set (map ?up (users d)). u_id u = rs_userId r"
    by (metis (no_types, lifting) image_iff)
  have pk': "distinct (map u_id (map ?up (users d)))"
    by (simp only: ids pk)
  have sel: "users (d\<lparr>users := map ?up (users d)\<rparr>) = map ?up (users d)"
    "reputationScores (d\<lparr>users := map ?up (users d)\<rparr>) = reputationScores d"
    "users_seq (d\<lparr>users := map ?up (users d)\<rparr>) = users_seq d"
    by simp_all
  have "constraints_hold (d\<lparr>users := map ?up (users d)\<rparr>)"
    unfolding constraints_hold_def sel using pk' w p fk' by blast
  moreover have "sequences_ahead (d\<lparr>users := map ?up (users d)\<rparr>)"
    unfolding sequences_ahead_def sel using assms(2) by (auto simp: sequences_ahead_def set_user_id)
  ultimately show ?thesis
    by (simp only: d')
qed

lemma createReputationScore_keeps_constraints:
  assumes "constraints_hold d" and "sequences_ahead d"
  shows "constraints_hold (snd (createReputationScore now insertScore d)) \<and>
         sequences_ahead (snd (createReputationScore now insertScore d))"
  using assms
  by (auto simp: createReputationScore_def Let_def constraints_hold_def sequences_ahead_def)

lemma updateReputationScore_keeps_constraints:
  assumes "constraints_hold d" and "sequences_ahead d"
  shows "constraints_hold (snd (updateReputationScore now userId updates d)) \<and>
         sequences_ahead (snd (updateReputationScore now userId updates d))"
  using assms
  by (auto simp: updateReputationScore_def constraints_hold_def sequences_ahead_def)

lemma createZkProof_keeps_constraints:
  assumes "constraints_hold d" and "sequences_ahead d"
  shows "constraints_hold (snd (createZkProof now insertProof d)) \<and>
         sequences_ahead (snd (createZkProof now insertProof d))"
  using assms
  by (auto simp: createZkProof_def Let_def constraints_hold_def sequences_ahead_def)

lemma updateLeaderboard_keeps_constraints:
  assumes "constraints_hold d" and "sequences_ahead d" and "updateLeaderboard clock d states d'"
    and "s \<in> set states"
  shows "constraints_hold s \<and> sequences_ahead s"
proof -
  from assms(3) obtain scores where
    st: "states = map (\<lambda>k. d\<lparr>leaderboard_seq := leaderboard_seq d + int k,
                 leaderboard := map (written_row clock (leaderboard_seq d) scores) [0..<k]\<rparr>)
             [0..<Suc (length scores)]"
    by (rule updateLeaderboard_final)
  from assms(4) obtain k where "s = d\<lparr>leaderboard_seq := leaderboard_seq d + int k,
                 leaderboard := map (written_row clock (leaderboard_seq d) scores) [0..<k]\<rparr>"
    unfolding st by (auto simp del: upt_Suc)
  with assms(1,2) show ?thesis
    by (auto simp: constraints_hold_def sequences_ahead_def written_row_def)
qed

section \<open>The leaderboard scenarios evaluated\<close>

lemma dbABC_tables:
  "users dbABC =
     [\<lparr>u_id = 1, u_walletAddress = ''0xAA'', u_chain = ''ethereum'', u_publicKey = None,
        u_pseudonymousId = Some ''anon_A'', u_createdAt = 0, u_updatedAt = 0\<rparr>,
      \<lparr>u_id = 2, u_walletAddress = ''0xBB'', u_chain = ''solana'', u_publicKey = None,
        u_pseudonymousId = Some ''anon_B'', u_createdAt = 5, u_updatedAt = 5\<rparr>,
      \<lparr>u_id = 3, u_walletAddress = ''0xCC'', u_chain = ''ethereum'', u_publicKey = None,
        u_pseudonymousId = Some ''anon_C'', u_createdAt = 7, u_updatedAt = 7\<rparr>]"
  "map rs_userId (reputationScores dbABC) = [2, 1, 3]"
  "map rs_overallScore (reputationScores dbABC) = [90000, 90000, 85000]"
  "map rs_reputationLevel (reputationScores dbABC) = [''gold'', ''gold'', ''silver'']"
  "leaderboard dbABC = []" "leaderboard_seq dbABC = 0" "users_seq dbABC = 3"
  by (simp_all add: dbABC_def dbTwoUsers_eq userC_def scoreFor_def createUser_def
      createReputationScore_def dflt_def Let_def)

lemma select_scores_dbABC: "select_scores dbABC = [rowB, rowA, rowC]"
  by (simp add: select_scores_def dbABC_def dbTwoUsers_eq userC_def scoreFor_def createUser_def
      createReputationScore_def dflt_def Let_def rowA_def rowB_def rowC_def)

lemma constraints_hold_dbABC: "constraints_hold dbABC"
proof -
  have "\<forall>r \<in> set (reputationScores dbABC). \<exists>u \<in> set (users dbABC). u_id u = rs_userId r"
    by (simp add: dbABC_def dbTwoUsers_eq userC_def scoreFor_def createUser_def
      createReputationScore_def dflt_def Let_def)
  then show ?thesis
    by (simp add: constraints_hold_def dbABC_tables map_filter_def)
qed

lemma run_dbABC_BAC:
  "updateLeaderboard (tick 100) dbABC (updateLeaderboard_run (tick 100) [rowB, rowA, rowC] dbABC) dbRankedBAC"
  unfolding dbRankedBAC_def
  by (rule updateLeaderboard.run)
     (simp add: order_by_desc_def select_scores_dbABC rowA_def rowB_def rowC_def)

lemma leaderboard_dbRankedBAC:
  "leaderboard dbRankedBAC =
     [\<lparr>lb_id = 1, lb_pseudonymousId = ''anon_B'', lb_reputationLevel = ''gold'',
        lb_overallScore = 90000, lb_chain = ''solana'', lb_rank = 1, lb_createdAt = 100,
        lb_updatedAt = 100\<rparr>,
      \<lparr>lb_id = 2, lb_pseudonymousId = ''anon_A'', lb_reputationLevel = ''gold'',
        lb_overallScore = 90000, lb_chain = ''ethereum'', lb_rank = 2, lb_createdAt = 101,
        lb_updatedAt = 101\<rparr>,
      \<lparr>lb_id = 3, lb_pseudonymousId = ''anon_C'', lb_reputationLevel = ''silver'',
        lb_overallScore = 85000, lb_chain = ''ethereum'', lb_rank = 3, lb_createdAt = 102,
        lb_updatedAt = 102\<rparr>]"
  "leaderboard_seq dbRankedBAC = 3"
  "users dbRankedBAC = users dbABC" "reputationScores dbRankedBAC = reputationScores dbABC"
  by (simp_all add: dbRankedBAC_def updateLeaderboard_run_last written_row_def dbABC_tables
      rowA_def rowB_def rowC_def tick_def)

lemma select_scores_dbRankedBAC: "select_scores dbRankedBAC = [rowB, rowA, rowC]"
  by (simp add: select_scores_def leaderboard_dbRankedBAC select_scores_dbABC [unfolded select_scores_def])

lemma run_dbRankedBAC_ABC:
  "updateLeaderboard (tick 200) dbRankedBAC
     (updateLeaderboard_run (tick 200) [rowA, rowB, rowC] dbRankedBAC) dbRankedABC"
  unfolding dbRankedABC_def
  by (rule updateLeaderboard.run)
     (simp add: order_by_desc_def select_scores_dbRankedBAC rowA_def rowB_def rowC_def)

lemma leaderboard_dbRankedABC:
  "leaderboard dbRankedABC =
     [\<lparr>lb_id = 4, lb_pseudonymousId = ''anon_A'', lb_reputationLevel = ''gold'',
        lb_overallScore = 90000, lb_chain = ''ethereum'', lb_rank = 1, lb_createdAt = 200,
        lb_updatedAt = 200\<rparr>,
      \<lparr>lb_id = 5, lb_pseudonymousId = ''anon_B'', lb_reputationLevel = ''gold'',
        lb_overallScore = 90000, lb_chain = ''solana'', lb_rank = 2, lb_createdAt = 201,
        lb_updatedAt = 201\<rparr>,
      \<lparr>lb_id = 6, lb_pseudonymousId = ''anon_C'', lb_reputationLevel = ''silver'',
        lb_overallScore = 85000, lb_chain = ''ethereum'', lb_rank = 3, lb_createdAt = 202,
        lb_updatedAt = 202\<rparr>]"
  by (simp add: dbRankedABC_def updateLeaderboard_run_last written_row_def leaderboard_dbRankedBAC
      rowA_def rowB_def rowC_def tick_def)

lemma dbABC_outcomes:
  assumes "updateLeaderboard clock dbABC states d'"
  shows "map entry_row (leaderboard d') = [rowA, rowB, rowC] \<or>
         map entry_row (leaderboard d') = [rowB, rowA, rowC]"
    and "map lb_rank (leaderboard d') = [1, 2, 3]"
proof -
  note rows = updateLeaderboard_rows [OF assms]
  from rows(1) have perm: "mset (map entry_row (leaderboard d')) = mset [rowB, rowA, rowC]"
    and srt: "sorted_wrt (\<lambda>a b. sr_overallScore b \<le> sr_overallScore a) (map entry_row (leaderboard d'))"
    by (simp_all add: order_by_desc_def select_scores_dbABC)
  from perm3 [OF perm] srt
  show "map entry_row (leaderboard d') = [rowA, rowB, rowC] \<or>
        map entry_row (leaderboard d') = [rowB, rowA, rowC]"
    by (auto simp: rowA_def rowB_def rowC_def)
  then have "length (leaderboard d') = 3"
    by (metis length_Cons length_map list.size(3) numeral_3_eq_3)
  with rows(2) show "map lb_rank (leaderboard d') = [1, 2, 3]"
    by (simp add: numeral_3_eq_3)
qed

lemma statesSecond_nth:
  "leaderboard (statesSecond ! 0) = []"
  "map lb_pseudonymousId (leaderboard (statesSecond ! 1)) = [''anon_A'']"
  "length statesSecond = 4"
  by (simp_all add: statesSecond_def updateLeaderboard_run_closed written_row_def rowA_def
      nth_append)

lemma dbTwoRecords_tables:
  "users dbTwoRecords =
     [\<lparr>u_id = 1, u_walletAddress = ''0xAA'', u_chain = ''ethereum'', u_publicKey = None,
        u_pseudonymousId = Some ''anon_A'', u_createdAt = 0, u_updatedAt = 0\<rparr>]"
  "map rs_userId (reputationScores dbTwoRecords) = [1, 1]"
  "leaderboard dbTwoRecords = []" "leaderboard_seq dbTwoRecords = 0" "users_seq dbTwoRecords = 1"
  by (simp_all add: dbTwoRecords_def dbScoredA_eq scoreFor_def createReputationScore_def dflt_def Let_def)

lemma select_scores_dbTwoRecords: "select_scores dbTwoRecords = [rowA1, rowA2]"
  by (simp add: select_scores_def dbTwoRecords_def dbScoredA_eq scoreFor_def
      createReputationScore_def dflt_def Let_def rowA1_def rowA2_def)

lemma run_dbTwoRecords:
  "updateLeaderboard (tick 100) dbTwoRecords
     (updateLeaderboard_run (tick 100) [rowA1, rowA2] dbTwoRecords) dbRankedTwoRecords"
  unfolding dbRankedTwoRecords_def
  by (rule updateLeaderboard.run)
     (simp add: order_by_desc_def select_scores_dbTwoRecords rowA1_def rowA2_def)

lemma dbDistinct_tables:
  "users dbDistinct = users dbTwoUsers"
  "map rs_userId (reputationScores dbDistinct) = [1, 2]"
  "leaderboard dbDistinct = []" "leaderboard_seq dbDistinct = 0"
  by (simp_all add: dbDistinct_def dbTwoUsers_eq scoreFor_def createReputationScore_def dflt_def Let_def)

lemma select_scores_dbDistinct: "select_scores dbDistinct = [rowA, rowB2]"
  by (simp add: select_scores_def dbDistinct_def dbTwoUsers_eq scoreFor_def
      createReputationScore_def dflt_def Let_def rowA_def rowB2_def)

lemma run_dbDistinct:
  "updateLeaderboard (tick 100) dbDistinct
     (updateLeaderboard_run (tick 100) [rowA, rowB2] dbDistinct) dbDistinctRanked"
  unfolding dbDistinctRanked_def
  by (rule updateLeaderboard.run)
     (simp add: order_by_desc_def select_scores_dbDistinct rowA_def rowB2_def)

lemma select_scores_dbDistinctRanked: "select_scores dbDistinctRanked = [rowA, rowB2]"
proof -
  have "users dbDistinctRanked = users dbDistinct"
    "reputationScores dbDistinctRanked = reputationScores dbDistinct"
    by (simp_all add: dbDistinctRanked_def updateLeaderboard_run_last)
  then have "select_scores dbDistinctRanked = select_scores dbDistinct"
    by (simp add: select_scores_def)
  then show ?thesis
    by (simp only: select_scores_dbDistinct)
qed

lemma run_dbDistinctRanked:
  "updateLeaderboard (tick 200) dbDistinctRanked
     (updateLeaderboard_run (tick 200) [rowA, rowB2] dbDistinctRanked) dbDistinctReranked"
  unfolding dbDistinctReranked_def
  by (rule updateLeaderboard.run)
     (simp add: order_by_desc_def select_scores_dbDistinctRanked rowA_def rowB2_def)

lemma leaderboard_dbDistinctRanked:
  "map lb_overallScore (leaderboard dbDistinctRanked) = [90000, 85000]"
  "map lb_id (leaderboard dbDistinctRanked) = [1, 2]"
  by (simp_all add: dbDistinctRanked_def updateLeaderboard_run_last written_row_def
      rowA_def rowB2_def dbDistinct_tables)

lemma inj_shift: "inj (\<lambda>i::int. i + 10)"
  by (simp add: inj_def)

section \<open>The leaderboard: what a rebuild leaves\<close>

text \<open>
  C1 (as amended). In a store that satisfies the schema's constraints, the leaderboard left by
  \<^verbatim>\<open>updateLeaderboard\<close> has exactly one entry per reputation record whose owner has a
  pseudonymous id: its rows are, record by record, the level and overall score of the record
  with the pseudonymous id and chain of its owner. Its ranks, in table order, are
  1, 2, ..., M for the M entries, each used once, and an entry of larger rank never has a
  larger overall score. When no identity owns two records, the entries are exactly the
  eligible identities, one entry each, so that M is their number N.
\<close>

theorem updateLeaderboard_dense_ranks:
  assumes "constraints_hold d" and "updateLeaderboard clock d states d'"
  shows "map lb_rank (leaderboard d') = map int [1..<Suc (length (leaderboard d'))] \<and>
         length (leaderboard d') =
           length (filter (\<lambda>r. \<exists>u \<in> set (users d). u_id u = rs_userId r \<and> u_pseudonymousId u \<noteq> None)
                     (reputationScores d)) \<and>
         mset (map entry_row (leaderboard d')) = mset (concat (map (joined d) (reputationScores d))) \<and>
         (\<forall>e1 \<in> set (leaderboard d'). \<forall>e2 \<in> set (leaderboard d').
            lb_rank e1 < lb_rank e2 \<longrightarrow> lb_overallScore e2 \<le> lb_overallScore e1) \<and>
         (atMostOneRecordPerIdentity d \<longrightarrow>
            mset (map lb_pseudonymousId (leaderboard d')) =
              mset (map (the \<circ> u_pseudonymousId) (filter (eligible d) (users d))) \<and>
            distinct (map lb_pseudonymousId (leaderboard d')) \<and>
            length (leaderboard d') = length (filter (eligible d) (users d)))"
proof -
  from assms(1) have pk: "distinct (map u_id (users d))"
    and uq: "distinct (List.map_filter u_pseudonymousId (users d))"
    by (simp_all add: constraints_hold_def)
  note rows = updateLeaderboard_rows [OF assms(2)]
  from rows(1) have perm: "mset (map entry_row (leaderboard d')) = mset (select_scores d)"
    and srt: "sorted_wrt (\<lambda>a b. sr_overallScore b \<le> sr_overallScore a) (map entry_row (leaderboard d'))"
    by (simp_all add: order_by_desc_def)
  have ranks: "map lb_rank (leaderboard d') = map int [1..<Suc (length (leaderboard d'))]"
    by (rule rows(2))
  have "length (leaderboard d') = length (select_scores d)"
    using perm by (metis length_map size_mset)
  then have count: "length (leaderboard d') =
           length (filter (\<lambda>r. \<exists>u \<in> set (users d). u_id u = rs_userId r \<and> u_pseudonymousId u \<noteq> None)
                     (reputationScores d))"
    by (simp only: length_select_scores [OF pk])
  have order: "\<forall>e1 \<in> set (leaderboard d'). \<forall>e2 \<in> set (leaderboard d').
            lb_rank e1 < lb_rank e2 \<longrightarrow> lb_overallScore e2 \<le> lb_overallScore e1"
    using rank_order [OF ranks srt] by blast
  have one: "mset (map lb_pseudonymousId (leaderboard d')) =
              mset (map (the \<circ> u_pseudonymousId) (filter (eligible d) (users d))) \<and>
            distinct (map lb_pseudonymousId (leaderboard d')) \<and>
            length (leaderboard d') = length (filter (eligible d) (users d))"
    if "atMostOneRecordPerIdentity d"
  proof -
    from that have dr: "distinct (map rs_userId (reputationScores d))"
      by (simp add: atMostOneRecordPerIdentity_def)
    have "mset (map lb_pseudonymousId (leaderboard d')) = mset (map sr_pseudonymousId (select_scores d))"
      using perm unfolding map_entry_row_pseudonym [symmetric] mset_map by simp
    then have m: "mset (map lb_pseudonymousId (leaderboard d')) =
              mset (map (the \<circ> u_pseudonymousId) (filter (eligible d) (users d)))"
      by (simp only: eligible_pseudonyms(1) [OF pk uq dr])
    have dl: "distinct (map lb_pseudonymousId (leaderboard d'))"
      using m eligible_pseudonyms [OF pk uq dr] by (metis mset_eq_imp_distinct_iff)
    have "length (leaderboard d') = length (filter (eligible d) (users d))"
      using m by (metis length_map size_mset)
    with m dl show ?thesis by simp
  qed
  have each: "mset (map entry_row (leaderboard d')) = mset (concat (map (joined d) (reputationScores d)))"
    using perm by (simp only: select_scores_joined [OF pk])
  from ranks count each order one show ?thesis
    by blast
qed

text \<open>The rebuild of the A, B, C scenario in which the store returned B before A.\<close>

theorem updateLeaderboard_dense_ranks_witness:
  "constraints_hold dbABC \<and> atMostOneRecordPerIdentity dbABC \<and>
   map lb_rank (leaderboard dbRankedBAC) = [1, 2, 3] \<and>
   length (filter (eligible dbABC) (users dbABC)) = 3 \<and>
   mset (map lb_pseudonymousId (leaderboard dbRankedBAC)) = mset [''anon_A'', ''anon_B'', ''anon_C''] \<and>
   lb_overallScore (leaderboard dbRankedBAC ! 2) \<le> lb_overallScore (leaderboard dbRankedBAC ! 0)"
proof -
  have one: "atMostOneRecordPerIdentity dbABC"
    by (simp add: atMostOneRecordPerIdentity_def dbABC_tables)
  have m: "leaderboard dbRankedBAC ! 0 \<in> set (leaderboard dbRankedBAC)"
    "leaderboard dbRankedBAC ! 2 \<in> set (leaderboard dbRankedBAC)"
    "lb_rank (leaderboard dbRankedBAC ! 0) < lb_rank (leaderboard dbRankedBAC ! 2)"
    by (simp_all add: leaderboard_dbRankedBAC)
  have len: "length (leaderboard dbRankedBAC) = 3"
    by (simp add: leaderboard_dbRankedBAC)
  have ps: "mset (map lb_pseudonymousId (leaderboard dbRankedBAC)) = mset [''anon_A'', ''anon_B'', ''anon_C'']"
    by (simp add: leaderboard_dbRankedBAC)
  from updateLeaderboard_dense_ranks [OF constraints_hold_dbABC run_dbABC_BAC] one m
  have "map lb_rank (leaderboard dbRankedBAC) = map int [1..<Suc (length (leaderboard dbRankedBAC))]"
    and "length (leaderboard dbRankedBAC) = length (filter (eligible dbABC) (users dbABC))"
    and "lb_overallScore (leaderboard dbRankedBAC ! 2) \<le> lb_overallScore (leaderboard dbRankedBAC ! 0)"
    by blast+
  with constraints_hold_dbABC one len ps show ?thesis
    by (simp add: numeral_3_eq_3)
qed

text \<open>
  C1 as stated fails: identity A owns two records (the store of the second
  \<^verbatim>\<open>createReputationScore\<close> for user 1). There is one eligible identity, and the rebuild
  leaves two entries for it, with ranks 1 and 2.
\<close>

theorem two_records_counterexample:
  "constraints_hold dbTwoRecords \<and>
   updateLeaderboard (tick 100) dbTwoRecords
     (updateLeaderboard_run (tick 100) [rowA1, rowA2] dbTwoRecords) dbRankedTwoRecords \<and>
   length (filter (eligible dbTwoRecords) (users dbTwoRecords)) = 1 \<and>
   map lb_pseudonymousId (leaderboard dbRankedTwoRecords) = [''anon_A'', ''anon_A''] \<and>
   map lb_rank (leaderboard dbRankedTwoRecords) = [1, 2]"
proof -
  have fk: "\<forall>r \<in> set (reputationScores dbTwoRecords). \<exists>u \<in> set (users dbTwoRecords). u_id u = rs_userId r"
    by (simp add: dbTwoRecords_def dbScoredA_eq scoreFor_def createReputationScore_def dflt_def Let_def)
  then have c: "constraints_hold dbTwoRecords"
    by (simp add: constraints_hold_def dbTwoRecords_tables map_filter_def)
  have e: "length (filter (eligible dbTwoRecords) (users dbTwoRecords)) = 1"
    by (simp add: eligible_def dbTwoRecords_def dbScoredA_eq scoreFor_def createReputationScore_def
        dflt_def Let_def)
  have l: "map lb_pseudonymousId (leaderboard dbRankedTwoRecords) = [''anon_A'', ''anon_A'']"
    "map lb_rank (leaderboard dbRankedTwoRecords) = [1, 2]"
    by (simp_all add: dbRankedTwoRecords_def updateLeaderboard_run_last written_row_def
        rowA1_def rowA2_def)
  from c run_dbTwoRecords e l show ?thesis by blast
qed

text \<open>
  C2 (as amended). \<^verbatim>\<open>updateLeaderboard\<close> is not atomic: it commits one delete and then one
  insert per selected row. The stores it passes through show, in this order, the empty table
  and then each prefix, by rank, of the new snapshot: the \<open>k\<close>-th observable table holds
  exactly the first \<open>k\<close> rows of the final one. No observable table holds a row of the old
  snapshot, so none mixes old and new rows, and the last one is the complete new snapshot.
\<close>

theorem updateLeaderboard_observable_states:
  assumes "sequences_ahead d" and "updateLeaderboard clock d states d'"
  shows "length states = Suc (length (leaderboard d')) \<and>
         (\<forall>k < length states. leaderboard (states ! k) = take k (leaderboard d')) \<and>
         (\<forall>s \<in> set states. set (leaderboard s) \<inter> set (leaderboard d) = {}) \<and>
         last states = d'"
proof -
  from assms(2) obtain scores where
    st: "states = map (\<lambda>k. d\<lparr>leaderboard_seq := leaderboard_seq d + int k,
                 leaderboard := map (written_row clock (leaderboard_seq d) scores) [0..<k]\<rparr>)
             [0..<Suc (length scores)]"
    and d': "d' = d\<lparr>leaderboard_seq := leaderboard_seq d + int (length scores),
       leaderboard := map (written_row clock (leaderboard_seq d) scores) [0..<length scores]\<rparr>"
    by (rule updateLeaderboard_final)
  have len: "length states = Suc (length (leaderboard d'))"
    by (simp add: st d' del: upt_Suc)
  have pre: "leaderboard (states ! k) = take k (leaderboard d')" if "k < length states" for k
  proof -
    from that have k: "k < Suc (length scores)"
      by (simp add: st del: upt_Suc)
    then have "states ! k = d\<lparr>leaderboard_seq := leaderboard_seq d + int k,
                 leaderboard := map (written_row clock (leaderboard_seq d) scores) [0..<k]\<rparr>"
      unfolding st by (simp del: upt_Suc)
    moreover from k have "take k [0..<length scores] = [0..<k]"
      by (simp add: take_upt)
    ultimately show ?thesis
      by (simp add: d' take_map)
  qed
  have new: "set (leaderboard s) \<inter> set (leaderboard d) = {}" if "s \<in> set states" for s
  proof -
    from that obtain k where "s = d\<lparr>leaderboard_seq := leaderboard_seq d + int k,
                 leaderboard := map (written_row clock (leaderboard_seq d) scores) [0..<k]\<rparr>"
      unfolding st by (auto simp del: upt_Suc)
    then have "\<forall>e \<in> set (leaderboard s). leaderboard_seq d < lb_id e"
      by (simp add: written_row_def)
    moreover from assms(1) have "\<forall>e \<in> set (leaderboard d). lb_id e \<le> leaderboard_seq d"
      by (simp add: sequences_ahead_def)
    ultimately show ?thesis
      by fastforce
  qed
  have "last states = d'"
    unfolding st d' by (simp add: last_map del: upt_Suc)
  with len pre new show ?thesis by blast
qed

text \<open>The second rebuild of the A, B, C scenario: four observable stores.\<close>

theorem updateLeaderboard_observable_states_witness:
  "sequences_ahead dbRankedBAC \<and>
   length statesSecond = 4 \<and>
   leaderboard (statesSecond ! 2) = take 2 (leaderboard dbRankedABC) \<and>
   set (leaderboard dbRankedABC) \<inter> set (leaderboard dbRankedBAC) = {} \<and>
   last statesSecond = dbRankedABC"
proof -
  have "users_seq dbRankedBAC = 3"
    by (simp add: dbRankedBAC_def updateLeaderboard_run_last dbABC_tables)
  then have a: "sequences_ahead dbRankedBAC"
    by (simp add: sequences_ahead_def leaderboard_dbRankedBAC dbABC_tables)
  have r: "updateLeaderboard (tick 200) dbRankedBAC statesSecond dbRankedABC"
    unfolding statesSecond_def by (rule run_dbRankedBAC_ABC)
  have k: "(2::nat) < length statesSecond"
    by (simp add: statesSecond_nth)
  have l: "dbRankedABC \<in> set statesSecond"
    unfolding dbRankedABC_def statesSecond_def
    by (rule last_in_set) (simp add: updateLeaderboard_run_def Let_def)
  from updateLeaderboard_observable_states [OF a r] a k l show ?thesis
    by (simp add: statesSecond_nth)
qed

text \<open>
  C2 as stated fails: during the second rebuild of the A, B, C scenario, whose leaderboard is
  not empty, a reader after the delete observes the empty table, and a reader after the first
  insert observes one row of three.
\<close>

theorem rebuild_observed_counterexample:
  "leaderboard dbRankedBAC \<noteq> [] \<and>
   updateLeaderboard (tick 200) dbRankedBAC statesSecond dbRankedABC \<and>
   leaderboard (statesSecond ! 0) = [] \<and>
   map lb_pseudonymousId (leaderboard (statesSecond ! 1)) = [''anon_A''] \<and>
   length (leaderboard dbRankedABC) = 3"
proof -
  have "leaderboard dbRankedBAC \<noteq> []" and "length (leaderboard dbRankedABC) = 3"
    by (simp_all add: leaderboard_dbRankedBAC leaderboard_dbRankedABC)
  moreover have "updateLeaderboard (tick 200) dbRankedBAC statesSecond dbRankedABC"
    unfolding statesSecond_def by (rule run_dbRankedBAC_ABC)
  ultimately show ?thesis
    using statesSecond_nth(1,2) by blast
qed

text \<open>
  C4 (as amended). The entries are ordered by overall score descending: of two entries with
  different scores the one with the higher score has the smaller rank. Among equal scores
  the order is the one the store returned; the source gives \<^verbatim>\<open>ORDER BY\<close> no second key. For
  A (900, registered first), B (900, registered second) and C (850), every rebuild ranks C
  third and gives A and B the ranks 1 and 2, in one order or the other.
\<close>

theorem updateLeaderboard_score_order:
  assumes "updateLeaderboard clock d states d'" and "updateLeaderboard clock2 dbABC states2 d2"
  shows "(\<forall>e1 \<in> set (leaderboard d'). \<forall>e2 \<in> set (leaderboard d').
            lb_overallScore e2 < lb_overallScore e1 \<longrightarrow> lb_rank e1 < lb_rank e2) \<and>
         getLeaderboardPosition d2 ''anon_C'' = Some 3 \<and>
         (getLeaderboardPosition d2 ''anon_A'' = Some 1 \<and> getLeaderboardPosition d2 ''anon_B'' = Some 2 \<or>
          getLeaderboardPosition d2 ''anon_A'' = Some 2 \<and> getLeaderboardPosition d2 ''anon_B'' = Some 1)"
proof -
  note rows = updateLeaderboard_rows [OF assms(1)]
  from rows(1) have srt: "sorted_wrt (\<lambda>a b. sr_overallScore b \<le> sr_overallScore a)
      (map entry_row (leaderboard d'))"
    by (simp add: order_by_desc_def)
  have general: "\<forall>e1 \<in> set (leaderboard d'). \<forall>e2 \<in> set (leaderboard d').
            lb_overallScore e2 < lb_overallScore e1 \<longrightarrow> lb_rank e1 < lb_rank e2"
    using strict_rank_order [OF rows(2) srt] by blast
  note out = dbABC_outcomes [OF assms(2)]
  from out(1) have "getLeaderboardPosition d2 ''anon_C'' = Some 3 \<and>
         (getLeaderboardPosition d2 ''anon_A'' = Some 1 \<and> getLeaderboardPosition d2 ''anon_B'' = Some 2 \<or>
          getLeaderboardPosition d2 ''anon_A'' = Some 2 \<and> getLeaderboardPosition d2 ''anon_B'' = Some 1)"
  proof
    assume "map entry_row (leaderboard d2) = [rowA, rowB, rowC]"
    then show ?thesis
      by (simp add: getLeaderboardPosition_values entry_values_zip out(2) rowA_def rowB_def rowC_def)
  next
    assume "map entry_row (leaderboard d2) = [rowB, rowA, rowC]"
    then show ?thesis
      by (simp add: getLeaderboardPosition_values entry_values_zip out(2) rowA_def rowB_def rowC_def)
  qed
  with general show ?thesis by blast
qed

theorem updateLeaderboard_score_order_witness:
  "lb_rank (leaderboard dbRankedABC ! 1) < lb_rank (leaderboard dbRankedABC ! 2) \<and>
   getLeaderboardPosition dbRankedBAC ''anon_C'' = Some 3 \<and>
   (getLeaderboardPosition dbRankedBAC ''anon_A'' = Some 1 \<and>
      getLeaderboardPosition dbRankedBAC ''anon_B'' = Some 2 \<or>
    getLeaderboardPosition dbRankedBAC ''anon_A'' = Some 2 \<and>
      getLeaderboardPosition dbRankedBAC ''anon_B'' = Some 1)"
proof -
  have m: "leaderboard dbRankedABC ! 1 \<in> set (leaderboard dbRankedABC)"
    "leaderboard dbRankedABC ! 2 \<in> set (leaderboard dbRankedABC)"
    by (simp_all add: leaderboard_dbRankedABC)
  have lt: "lb_overallScore (leaderboard dbRankedABC ! 2) < lb_overallScore (leaderboard dbRankedABC ! 1)"
    by (simp add: leaderboard_dbRankedABC)
  from updateLeaderboard_score_order [OF run_dbRankedBAC_ABC run_dbABC_BAC] m lt
  show ?thesis by blast
qed

text \<open>
  C4 as stated fails: A registered before B (ids 1 and 2, creation times 0 and 5), both have
  score 900.00, and the rebuild in which the store returns B's row first (the order in which
  the two records were inserted) ranks B first and A second.
\<close>

theorem tie_break_counterexample:
  "map u_pseudonymousId (users dbABC) = [Some ''anon_A'', Some ''anon_B'', Some ''anon_C''] \<and>
   map u_createdAt (users dbABC) = [0, 5, 7] \<and>
   updateLeaderboard (tick 100) dbABC (updateLeaderboard_run (tick 100) [rowB, rowA, rowC] dbABC) dbRankedBAC \<and>
   getLeaderboardPosition dbRankedBAC ''anon_A'' = Some 2 \<and>
   getLeaderboardPosition dbRankedBAC ''anon_B'' = Some 1 \<and>
   getLeaderboardPosition dbRankedBAC ''anon_C'' = Some 3"
  using run_dbABC_BAC
  by (simp add: dbABC_tables getLeaderboardPosition_def leaderboard_dbRankedBAC)

text \<open>
  C8. Every row that \<^verbatim>\<open>updateLeaderboard\<close> writes, in every store the run passes through,
  takes its pseudonymous id and chain from one user and its level and overall score from a
  record of that user; its rank is its position; the remaining columns are the table's own
  serial id and the timestamps the store fills in. Nothing else of the identity reaches the
  table: a store that differs only in the internal user ids (renamed injectively), the wallet
  addresses and the public keys admits the same run, table for table.
\<close>

theorem updateLeaderboard_writes_only_public_fields:
  assumes "updateLeaderboard clock d states d'" and "s \<in> set states" and "e \<in> set (leaderboard s)"
  shows "(\<exists>r \<in> set (reputationScores d). \<exists>u \<in> set (users d).
            rs_userId r = u_id u \<and>
            u_pseudonymousId u = Some (lb_pseudonymousId e) \<and>
            lb_reputationLevel e = rs_reputationLevel r \<and>
            lb_overallScore e = rs_overallScore r \<and>
            lb_chain e = u_chain u) \<and>
         (\<exists>j < length (leaderboard d').
            lb_rank e = int j + 1 \<and> lb_id e = leaderboard_seq d + int j + 1 \<and>
            lb_createdAt e = clock j \<and> lb_updatedAt e = clock j) \<and>
         (\<forall>g w k. inj g \<longrightarrow>
            (\<exists>states2 d2. updateLeaderboard clock (relabel g w k d) states2 d2 \<and>
               map leaderboard states2 = map leaderboard states \<and> leaderboard d2 = leaderboard d'))"
proof -
  from assms(1) obtain scores where s: "order_by_desc (select_scores d) scores"
    and st: "states = map (\<lambda>k. d\<lparr>leaderboard_seq := leaderboard_seq d + int k,
                 leaderboard := map (written_row clock (leaderboard_seq d) scores) [0..<k]\<rparr>)
             [0..<Suc (length scores)]"
    and d': "d' = d\<lparr>leaderboard_seq := leaderboard_seq d + int (length scores),
       leaderboard := map (written_row clock (leaderboard_seq d) scores) [0..<length scores]\<rparr>"
    by (rule updateLeaderboard_final)
  from assms(2) obtain k where k: "k < Suc (length scores)"
    and sk: "s = d\<lparr>leaderboard_seq := leaderboard_seq d + int k,
                 leaderboard := map (written_row clock (leaderboard_seq d) scores) [0..<k]\<rparr>"
    unfolding st by (auto simp del: upt_Suc)
  from assms(3) obtain j where j: "j < k" and e: "e = written_row clock (leaderboard_seq d) scores j"
    unfolding sk by auto
  from j k have jn: "j < length scores" by simp
  then have "scores ! j \<in> set scores" by simp
  with s have "scores ! j \<in> set (select_scores d)"
    unfolding order_by_desc_def by (metis set_mset_mset)
  from select_scores_mem [OF this]
  have src: "\<exists>r \<in> set (reputationScores d). \<exists>u \<in> set (users d).
            rs_userId r = u_id u \<and>
            u_pseudonymousId u = Some (lb_pseudonymousId e) \<and>
            lb_reputationLevel e = rs_reputationLevel r \<and>
            lb_overallScore e = rs_overallScore r \<and>
            lb_chain e = u_chain u"
    by (simp add: e written_row_def)
  have own: "\<exists>j < length (leaderboard d').
            lb_rank e = int j + 1 \<and> lb_id e = leaderboard_seq d + int j + 1 \<and>
            lb_createdAt e = clock j \<and> lb_updatedAt e = clock j"
    using jn by (intro exI [of _ j]) (simp add: e written_row_def d')
  have ni: "\<exists>states2 d2. updateLeaderboard clock (relabel g w k d) states2 d2 \<and>
               map leaderboard states2 = map leaderboard states \<and> leaderboard d2 = leaderboard d'"
    if "inj g" for g w k
    using assms(1) select_scores_relabel [OF that]
    by (rule updateLeaderboard_depends) (simp add: relabel_def)
  from src own ni show ?thesis by blast
qed

text \<open>
  The second entry of the ranked A, B, C scenario, and the same scenario with user ids shifted
  by 10, other wallet addresses and no public keys.
\<close>

theorem updateLeaderboard_writes_only_public_fields_witness:
  "(\<exists>r \<in> set (reputationScores dbABC). \<exists>u \<in> set (users dbABC).
      rs_userId r = u_id u \<and>
      u_pseudonymousId u = Some (lb_pseudonymousId (leaderboard dbRankedBAC ! 1)) \<and>
      lb_reputationLevel (leaderboard dbRankedBAC ! 1) = rs_reputationLevel r \<and>
      lb_overallScore (leaderboard dbRankedBAC ! 1) = rs_overallScore r \<and>
      lb_chain (leaderboard dbRankedBAC ! 1) = u_chain u) \<and>
   lb_pseudonymousId (leaderboard dbRankedBAC ! 1) = ''anon_A'' \<and>
   map u_walletAddress (users (hideIdentity dbABC)) = [''0xanon_A'', ''0xanon_B'', ''0xanon_C''] \<and>
   map u_id (users (hideIdentity dbABC)) = [11, 12, 13] \<and>
   (\<exists>states2 d2. updateLeaderboard (tick 100) (hideIdentity dbABC) states2 d2 \<and>
      map leaderboard states2 = map leaderboard (updateLeaderboard_run (tick 100) [rowB, rowA, rowC] dbABC) \<and>
      leaderboard d2 = leaderboard dbRankedBAC)"
proof -
  have s: "dbRankedBAC \<in> set (updateLeaderboard_run (tick 100) [rowB, rowA, rowC] dbABC)"
    unfolding dbRankedBAC_def by (rule last_in_set) (simp add: updateLeaderboard_run_def Let_def)
  have e: "leaderboard dbRankedBAC ! 1 \<in> set (leaderboard dbRankedBAC)"
    by (simp add: leaderboard_dbRankedBAC)
  have p: "lb_pseudonymousId (leaderboard dbRankedBAC ! 1) = ''anon_A''"
    by (simp add: leaderboard_dbRankedBAC)
  have h: "map u_walletAddress (users (hideIdentity dbABC)) = [''0xanon_A'', ''0xanon_B'', ''0xanon_C'']"
    "map u_id (users (hideIdentity dbABC)) = [11, 12, 13]"
    by (simp_all add: hideIdentity_def relabel_def dbABC_tables)
  from updateLeaderboard_writes_only_public_fields [OF run_dbABC_BAC s e] inj_shift p h
  show ?thesis
    unfolding hideIdentity_def by blast
qed

text \<open>
  C9 (as amended). Two consecutive rebuilds, with no change to users or records in between,
  leave the same ranks, the same overall score at every rank and the same rows up to order
  (pseudonymous id, level, overall score, chain). When no two entries share an overall score
  the two snapshots are identical in the five written columns, and every pseudonymous id has
  the same rank after both runs. The table's serial ids and timestamps differ.
\<close>

theorem updateLeaderboard_twice:
  assumes "updateLeaderboard clock1 d states1 d1" and "updateLeaderboard clock2 d1 states2 d2"
  shows "map lb_rank (leaderboard d2) = map lb_rank (leaderboard d1) \<and>
         map lb_overallScore (leaderboard d2) = map lb_overallScore (leaderboard d1) \<and>
         mset (map entry_row (leaderboard d2)) = mset (map entry_row (leaderboard d1)) \<and>
         (distinct (map lb_overallScore (leaderboard d1)) \<longrightarrow>
            map entry_values (leaderboard d2) = map entry_values (leaderboard d1) \<and>
            (\<forall>p. getLeaderboardPosition d2 p = getLeaderboardPosition d1 p))"
proof -
  note r1 = updateLeaderboard_rows [OF assms(1)] and r2 = updateLeaderboard_rows [OF assms(2)]
  have same: "select_scores d1 = select_scores d"
    by (simp add: select_scores_def r1(3,4))
  from r1(1) have p1: "mset (map entry_row (leaderboard d1)) = mset (select_scores d)"
    and s1: "sorted_wrt (\<lambda>a b. sr_overallScore b \<le> sr_overallScore a) (map entry_row (leaderboard d1))"
    by (simp_all add: order_by_desc_def)
  from r2(1) have p2: "mset (map entry_row (leaderboard d2)) = mset (select_scores d)"
    and s2: "sorted_wrt (\<lambda>a b. sr_overallScore b \<le> sr_overallScore a) (map entry_row (leaderboard d2))"
    by (simp_all add: order_by_desc_def same)
  have perm: "mset (map entry_row (leaderboard d2)) = mset (map entry_row (leaderboard d1))"
    by (simp only: p1 p2)
  then have len: "length (leaderboard d2) = length (leaderboard d1)"
    by (metis length_map size_mset)
  have ranks: "map lb_rank (leaderboard d2) = map lb_rank (leaderboard d1)"
    by (simp only: r1(2) r2(2) len)
  have sc: "map sr_overallScore (map entry_row lb) = map lb_overallScore lb" for lb
    by (simp add: entry_row_def)
  have scores: "map lb_overallScore (leaderboard d2) = map lb_overallScore (leaderboard d1)"
    using sorted_desc_keys_unique [OF perm s2 s1] by (simp only: sc)
  have ident: "map entry_values (leaderboard d2) = map entry_values (leaderboard d1) \<and>
            (\<forall>p. getLeaderboardPosition d2 p = getLeaderboardPosition d1 p)"
    if "distinct (map lb_overallScore (leaderboard d1))"
  proof -
    from that have "distinct (map sr_overallScore (map entry_row (leaderboard d1)))"
      by (simp only: sc)
    with perm s1 s2 have "map entry_row (leaderboard d1) = map entry_row (leaderboard d2)"
      by (intro sorted_desc_distinct_unique [where f = sr_overallScore]) simp_all
    with ranks have "map entry_values (leaderboard d2) = map entry_values (leaderboard d1)"
      by (intro entry_values_from_row) simp_all
    then show ?thesis
      by (simp add: getLeaderboardPosition_values)
  qed
  from ranks scores perm ident show ?thesis
    by blast
qed

text \<open>Two rebuilds of the store with scores 900.00 and 850.00.\<close>

theorem updateLeaderboard_twice_witness:
  "map lb_overallScore (leaderboard dbDistinctRanked) = [90000, 85000] \<and>
   map entry_values (leaderboard dbDistinctReranked) = map entry_values (leaderboard dbDistinctRanked) \<and>
   getLeaderboardPosition dbDistinctReranked ''anon_B'' = getLeaderboardPosition dbDistinctRanked ''anon_B'' \<and>
   map lb_rank (leaderboard dbDistinctReranked) = map lb_rank (leaderboard dbDistinctRanked)"
proof -
  have d: "distinct (map lb_overallScore (leaderboard dbDistinctRanked))"
    by (simp add: leaderboard_dbDistinctRanked)
  from updateLeaderboard_twice [OF run_dbDistinct run_dbDistinctRanked] d leaderboard_dbDistinctRanked(1)
  show ?thesis by blast
qed

text \<open>
  C9 as stated fails: in the A, B, C scenario the first rebuild may rank B first and the second
  A first; the pseudonymous id of A has rank 2 after the first run and rank 1 after the
  second.
\<close>

theorem rebuild_twice_counterexample:
  "updateLeaderboard (tick 100) dbABC (updateLeaderboard_run (tick 100) [rowB, rowA, rowC] dbABC) dbRankedBAC \<and>
   updateLeaderboard (tick 200) dbRankedBAC
     (updateLeaderboard_run (tick 200) [rowA, rowB, rowC] dbRankedBAC) dbRankedABC \<and>
   getLeaderboardPosition dbRankedBAC ''anon_A'' = Some 2 \<and>
   getLeaderboardPosition dbRankedABC ''anon_A'' = Some 1 \<and>
   map lb_pseudonymousId (leaderboard dbRankedBAC) = [''anon_B'', ''anon_A'', ''anon_C''] \<and>
   map lb_pseudonymousId (leaderboard dbRankedABC) = [''anon_A'', ''anon_B'', ''anon_C'']"
  using run_dbABC_BAC run_dbRankedBAC_ABC
  by (simp add: getLeaderboardPosition_def leaderboard_dbRankedBAC leaderboard_dbRankedABC)

end
